theory Spec2Isabelle
  imports Main "HOL-Library.Sublist"
begin

section \<open>Ubuntu Image Fetcher (index.py)\<close>

text \<open>
  A shallow embedding of \<^verbatim>\<open>src/index.py\<close>: the two pure helpers
  \<^verbatim>\<open>get_extension_from_content_type\<close> and \<^verbatim>\<open>sanitize_filename\<close>, and the
  routine \<^verbatim>\<open>main\<close> with its effects (standard input, printing, the HTTP request,
  the filesystem) written as explicit state passing over a record of what the outside
  world answers.

  A Python \<^verbatim>\<open>str\<close> is modelled as \<^typ>\<open>string\<close>; a \<^typ>\<open>char\<close> stands for the
  code point of the same number, so the model covers the code points 0 to 255
  (ASCII and Latin-1) and \<^const>\<open>length\<close> counts code points as \<^verbatim>\<open>len\<close> does.

  What the model takes for granted:
  \<^item> \<^verbatim>\<open>os.path\<close> is \<^verbatim>\<open>posixpath\<close>;
  \<^item> \<^verbatim>\<open>print\<close> itself does not raise (the terminal takes and encodes every message);
  \<^item> \<^verbatim>\<open>urlparse\<close>, \<^verbatim>\<open>os.path.exists\<close> and \<^verbatim>\<open>os.path.getsize\<close> do not raise, and
    \<^verbatim>\<open>getsize\<close> gives the number of bytes written;
  \<^item> nothing else changes the output directory while the run lasts.
\<close>

subsection \<open>Python string and integer operations\<close>

text \<open>\<^verbatim>\<open>s.replace(old, new)\<close> for one-character \<^verbatim>\<open>old\<close> and \<^verbatim>\<open>new\<close>.\<close>

definition replace :: "string \<Rightarrow> char \<Rightarrow> char \<Rightarrow> string" where
  "replace s old new = map (\<lambda>c. if c = old then new else c) s"

text \<open>\<^verbatim>\<open>s.lower()\<close>: below 256 the upper-case letters are A to Z and the Latin-1
  letters 0xC0 to 0xDE without the multiplication sign 0xD7; each maps to the code
  point 32 above it.\<close>

definition lower_char :: "char \<Rightarrow> char" where
  "lower_char c =
     (let n = (of_char c :: nat)
      in if (65 \<le> n \<and> n \<le> 90) \<or> (192 \<le> n \<and> n \<le> 222 \<and> n \<noteq> 215)
         then char_of (n + 32) else c)"

definition lower :: "string \<Rightarrow> string" where
  "lower s = map lower_char s"

text \<open>\<^verbatim>\<open>s.strip()\<close> removes leading and trailing white space: the code points
  9 to 13, 28 to 32, 0x85 and 0xA0.\<close>

definition isspace :: "char \<Rightarrow> bool" where
  "isspace c =
     (let n = (of_char c :: nat)
      in (9 \<le> n \<and> n \<le> 13) \<or> (28 \<le> n \<and> n \<le> 32) \<or> n = 133 \<or> n = 160)"

definition strip :: "string \<Rightarrow> string" where
  "strip s = rev (dropWhile isspace (rev (dropWhile isspace s)))"

text \<open>\<^verbatim>\<open>s.rfind(c)\<close>: the highest index of \<open>c\<close> in \<open>s\<close>, or \<open>-1\<close>.\<close>

fun rfind :: "'a list \<Rightarrow> 'a \<Rightarrow> int" where
  "rfind [] c = - 1"
| "rfind (x # xs) c =
     (let r = rfind xs c
      in if 0 \<le> r then r + 1 else if x = c then 0 else - 1)"

text \<open>The slice \<^verbatim>\<open>xs[:k]\<close>; a negative \<open>k\<close> counts from the end.\<close>

definition slice_to :: "'a list \<Rightarrow> int \<Rightarrow> 'a list" where
  "slice_to xs k = (if k < 0 then take (nat (int (length xs) + k)) xs else take (nat k) xs)"

text \<open>\<^verbatim>\<open>x or y\<close> on an optional string: \<^verbatim>\<open>None\<close> and the empty string are false.\<close>

definition py_or :: "string option \<Rightarrow> string \<Rightarrow> string" where
  "py_or x y = (case x of None \<Rightarrow> y | Some s \<Rightarrow> if s = [] then y else s)"

text \<open>\<^verbatim>\<open>str(n)\<close>, as an f-string renders an integer.\<close>

definition digit_char :: "nat \<Rightarrow> char" where
  "digit_char d = ''0123456789'' ! d"

fun str_nat :: "nat \<Rightarrow> string" where
  "str_nat n = (if n < 10 then [digit_char n] else str_nat (n div 10) @ [digit_char (n mod 10)])"

declare str_nat.simps [simp del]

definition str_int :: "int \<Rightarrow> string" where
  "str_int i = (if i < 0 then CHR ''-'' # str_nat (nat (- i)) else str_nat (nat i))"

text \<open>\<^verbatim>\<open>int(s)\<close> on a string: white space around (the code points 9 to 13, 32, 0x85
  and 0xA0), an optional sign, then decimal digits, where single underscores may stand
  between digits; CPython refuses a string of more than 4300 digits (its default
  \<^verbatim>\<open>int_max_str_digits\<close>). \<open>None\<close> is the \<^verbatim>\<open>ValueError\<close>.\<close>

definition int_space :: "char \<Rightarrow> bool" where
  "int_space c =
     (let n = (of_char c :: nat)
      in (9 \<le> n \<and> n \<le> 13) \<or> n = 32 \<or> n = 133 \<or> n = 160)"

definition is_digit :: "char \<Rightarrow> bool" where
  "is_digit c = (let n = (of_char c :: nat) in 48 \<le> n \<and> n \<le> 57)"

definition digit_value :: "char \<Rightarrow> int" where
  "digit_value c = int (of_char c) - 48"

fun parse_digits :: "string \<Rightarrow> int \<Rightarrow> int option" where
  "parse_digits [] acc = Some acc"
| "parse_digits (c # cs) acc =
     (if is_digit c then parse_digits cs (acc * 10 + digit_value c)
      else if c = CHR ''_''
      then (case cs of [] \<Rightarrow> None
            | d # ds \<Rightarrow> if is_digit d then parse_digits cs acc else None)
      else None)"

definition parse_number :: "string \<Rightarrow> int option" where
  "parse_number s =
     (case s of [] \<Rightarrow> None
      | c # cs \<Rightarrow> if is_digit c then parse_digits s 0 else None)"

definition py_int :: "string \<Rightarrow> int option" where
  "py_int s =
     (if 4300 < length (filter is_digit s) then None
      else case rev (dropWhile int_space (rev (dropWhile int_space s))) of
             [] \<Rightarrow> None
           | c # cs \<Rightarrow>
               if c = CHR ''+'' then parse_number cs
               else if c = CHR ''-'' then map_option uminus (parse_number cs)
               else parse_number (c # cs))"

subsection \<open>os.path (posixpath)\<close>

text \<open>The loop of \<^verbatim>\<open>genericpath._splitext\<close> that skips the leading dots of the
  last path component: \<open>True\<close> when it reaches the \<^verbatim>\<open>return p[:dotIndex], p[dotIndex:]\<close>,
  \<open>False\<close> when it runs to \<open>dotIndex\<close>.\<close>

function leading_dots_end :: "string \<Rightarrow> nat \<Rightarrow> nat \<Rightarrow> bool" where
  "leading_dots_end p filenameIndex dotIndex =
     (if filenameIndex < dotIndex
      then (if take 1 (drop filenameIndex p) \<noteq> ''.'' then True
            else leading_dots_end p (Suc filenameIndex) dotIndex)
      else False)"
  by pat_completeness auto
termination
  by (relation "measure (\<lambda>(p, i, d). d - i)") auto

declare leading_dots_end.simps [simp del]

text \<open>\<^verbatim>\<open>os.path.splitext(p)\<close>: \<^verbatim>\<open>genericpath._splitext(p, '/', None, '.')\<close>.\<close>

definition splitext :: "string \<Rightarrow> string \<times> string" where
  "splitext p =
     (let sepIndex = rfind p CHR ''/'';
          dotIndex = rfind p CHR ''.''
      in if sepIndex < dotIndex \<and> leading_dots_end p (nat (sepIndex + 1)) (nat dotIndex)
         then (take (nat dotIndex) p, drop (nat dotIndex) p)
         else (p, []))"

text \<open>\<^verbatim>\<open>os.path.basename(p)\<close>: \<^verbatim>\<open>p[p.rfind('/') + 1:]\<close>.\<close>

definition basename :: "string \<Rightarrow> string" where
  "basename p = drop (nat (rfind p CHR ''/'' + 1)) p"

text \<open>\<^verbatim>\<open>os.path.join(a, b)\<close> for two components.\<close>

definition path_join :: "string \<Rightarrow> string \<Rightarrow> string" where
  "path_join a b =
     (if prefix ''/'' b then b
      else if a = [] \<or> suffix ''/'' a then a @ b
      else a @ ''/'' @ b)"

subsection \<open>The helpers of index.py\<close>

definition extensions :: "(string \<times> string) list" where
  "extensions =
     [(''image/jpeg'', ''.jpg''),
      (''image/jpg'', ''.jpg''),
      (''image/png'', ''.png''),
      (''image/gif'', ''.gif''),
      (''image/webp'', ''.webp''),
      (''image/bmp'', ''.bmp''),
      (''image/svg+xml'', ''.svg''),
      (''image/tiff'', ''.tiff'')]"

definition get_extension_from_content_type :: "string \<Rightarrow> string option" where
  "get_extension_from_content_type content_type = map_of extensions (lower content_type)"

definition dangerous_chars :: string where
  "dangerous_chars =
     [CHR ''<'', CHR ''>'', CHR '':'', CHR 0x22, CHR ''/'', CHR 0x5C, CHR ''|'', CHR ''?'', CHR ''*'']"

text \<open>The \<^verbatim>\<open>for char in dangerous_chars\<close> loop of \<^verbatim>\<open>sanitize_filename\<close>.\<close>

definition replace_dangerous :: "string \<Rightarrow> string" where
  "replace_dangerous filename =
     foldl (\<lambda>filename char. replace filename char CHR ''_'') filename dangerous_chars"

definition sanitize_filename :: "string \<Rightarrow> string" where
  "sanitize_filename filename0 =
     (let filename = replace_dangerous filename0
      in if 255 < length filename
         then (case splitext filename of
                 (name, ext) \<Rightarrow> slice_to name (255 - int (length ext)) @ ext)
         else filename)"

text \<open>What the replacement loop does to one character.\<close>

definition safe_char :: "char \<Rightarrow> char" where
  "safe_char c = (if c \<in> set dangerous_chars then CHR ''_'' else c)"


subsection \<open>The outside world of one run\<close>

text \<open>
  The exceptions the operations of \<^verbatim>\<open>main\<close> raise, named by the first
  \<^verbatim>\<open>except\<close> clause they match: \<open>ConnectionError\<close>, \<open>Timeout\<close>, \<open>HTTPError\<close> and
  \<open>RequestException\<close> (any other exception of requests) from the HTTP layer,
  \<open>PermissionError\<close>, then \<open>EOFError\<close>, \<open>ValueError\<close>, \<open>OverflowError\<close> and
  \<open>OSError\<close>, which only \<^verbatim>\<open>except Exception\<close> matches, and \<open>KeyboardInterrupt\<close>, which derives from
  \<^verbatim>\<open>BaseException\<close> and matches no clause.
\<close>

datatype exn =
    ConnectionError | Timeout | HTTPError | RequestException | PermissionError
  | EOFError | ValueError | OverflowError | OSError | KeyboardInterrupt

text \<open>The six \<^verbatim>\<open>except\<close> clauses of \<^verbatim>\<open>main\<close>, in their order.\<close>

datatype clause =
    ExceptConnectionError | ExceptTimeout | ExceptHTTPError | ExceptRequestException
  | ExceptPermissionError | ExceptException

text \<open>The \<^verbatim>\<open>print\<close> statements of \<^verbatim>\<open>main\<close> (the text itself is not modelled, the
  interpolated values are): lines 12, 13, 19, 31, 38, 41, 59, 69, 74, 77, 87, 88, 89, 92,
  94, 95, and the two lines of each \<^verbatim>\<open>except\<close> clause.\<close>

datatype msg =
    Welcome | Tagline | NoUrlProvided | Connecting
  | ContentTypeWarning string | OperationCancelled
  | FileExists string | SavingAs string
  | LargeFile int | DownloadCancelled
  | Fetched string | SavedTo string | FileSize int | SizeMismatch
  | Strengthened | ThankYou
  | ErrorLine clause | WisdomLine clause

text \<open>The prompts of the four \<^verbatim>\<open>input\<close> calls, lines 16, 39, 60 and 75:
  \<^verbatim>\<open>Please enter the image URL: \<close>, \<^verbatim>\<open>Continue anyway? (y/N): \<close>,
  \<^verbatim>\<open>Overwrite? (y/N): \<close> and \<^verbatim>\<open>Continue download? (y/N): \<close>.\<close>

datatype prompt = EnterUrl | ContinueAnyway | Overwrite | ContinueDownload

text \<open>What a run does to the outside, in order: a printed line, a call of
  \<^verbatim>\<open>input\<close> with its prompt and the line read (\<open>None\<close> at end of input),
  \<^verbatim>\<open>os.makedirs\<close>, \<^verbatim>\<open>requests.get\<close>, a file opened with mode \<^verbatim>\<open>'wb'\<close> (created
  or truncated), a chunk written to it.\<close>

datatype event =
    Print msg | Input prompt "string option" | MakeDirs string | Get string
  | Open string | Write string

text \<open>The response of \<^verbatim>\<open>requests.get\<close>: what \<^verbatim>\<open>raise_for_status\<close> raises, the
  headers (keys in lower case), the chunks \<^verbatim>\<open>iter_content\<close> yields and the exception
  it raises after them, if any.\<close>

record response =
  raise_for_status :: "exn option"
  headers :: "(string \<times> string) list"
  iter_content :: "string list"
  iter_error :: "exn option"

text \<open>What the outside answers in one run: the lines on standard input, what
  \<^verbatim>\<open>os.makedirs\<close> raises, \<^verbatim>\<open>requests.get\<close>, the path component \<^verbatim>\<open>urlparse(url).path\<close>,
  the built-in \<^verbatim>\<open>hash\<close> (salted per process), the paths that exist when the run
  starts, and what \<^verbatim>\<open>open(filepath, 'wb')\<close> raises.\<close>

record world =
  stdin :: "string list"
  makedirs :: "exn option"
  requests_get :: "string \<Rightarrow> exn + response"
  urlparse_path :: "string \<Rightarrow> string"
  hash :: "string \<Rightarrow> int"
  existing :: "string list"
  open_wb :: "string \<Rightarrow> exn option"

text \<open>The state threaded through a run: the input not yet read and the events so far.\<close>

record state =
  inp :: "string list"
  trace :: "event list"

text \<open>The result of a block of statements: it falls through with a value, executes
  \<^verbatim>\<open>return\<close>, or raises.\<close>

datatype 'a res = Value 'a | Return | Raise exn

definition bnd ::
  "(state \<Rightarrow> 'a res \<times> state) \<Rightarrow> ('a \<Rightarrow> state \<Rightarrow> 'b res \<times> state) \<Rightarrow> state \<Rightarrow> 'b res \<times> state" where
  "bnd m f s =
     (case m s of
        (Value a, s') \<Rightarrow> f a s'
      | (Return, s') \<Rightarrow> (Return, s')
      | (Raise e, s') \<Rightarrow> (Raise e, s'))"

definition emit :: "event \<Rightarrow> state \<Rightarrow> state" where
  "emit e s = s\<lparr>trace := trace s @ [e]\<rparr>"

definition py_print :: "msg \<Rightarrow> state \<Rightarrow> state" where
  "py_print m s = emit (Print m) s"

definition py_input :: "prompt \<Rightarrow> state \<Rightarrow> string res \<times> state" where
  "py_input prompt s =
     (case inp s of
        [] \<Rightarrow> (Raise EOFError, emit (Input prompt None) s)
      | line # rest \<Rightarrow> (Value line, emit (Input prompt (Some line)) (s\<lparr>inp := rest\<rparr>)))"

definition header_get :: "response \<Rightarrow> string \<Rightarrow> string option" where
  "header_get response key = map_of (headers response) key"

text \<open>Line 36: \<^verbatim>\<open>response.headers.get('content-type', '')\<close>.\<close>

definition content_type_of :: "response \<Rightarrow> string" where
  "content_type_of response =
     (case header_get response ''content-type'' of None \<Rightarrow> [] | Some v \<Rightarrow> v)"

text \<open>Line 72: \<^verbatim>\<open>int(response.headers.get('content-length', 0))\<close>; the default is
  the integer 0, and \<open>None\<close> is the \<^verbatim>\<open>ValueError\<close> of \<^verbatim>\<open>int\<close>.\<close>

definition declared_size :: "response \<Rightarrow> int option" where
  "declared_size response =
     (case header_get response ''content-length'' of None \<Rightarrow> Some 0 | Some v \<Rightarrow> py_int v)"

subsection \<open>main\<close>

text \<open>Lines 24 to 33: the directory, the request, the status check.\<close>

definition fetch :: "world \<Rightarrow> string \<Rightarrow> state \<Rightarrow> response res \<times> state" where
  "fetch w url s =
     (case makedirs w of
        Some e \<Rightarrow> (Raise e, s)
      | None \<Rightarrow>
          (let s = emit (MakeDirs ''Fetched_Images'') s;
               s = py_print Connecting s;
               s = emit (Get url) s
           in case requests_get w url of
                Inl e \<Rightarrow> (Raise e, s)
              | Inr response \<Rightarrow>
                  (case raise_for_status response of
                     Some e \<Rightarrow> (Raise e, s)
                   | None \<Rightarrow> (Value response, s))))"

text \<open>Lines 37 to 42.\<close>

definition check_content_type :: "string \<Rightarrow> state \<Rightarrow> unit res \<times> state" where
  "check_content_type content_type s =
     (if \<not> prefix ''image/'' content_type
      then bnd (py_input ContinueAnyway)
             (\<lambda>proceed s.
                if lower proceed \<noteq> ''y''
                then (Return, py_print OperationCancelled s)
                else (Value (), s))
             (py_print (ContentTypeWarning content_type) s)
      else (Value (), s))"

text \<open>Lines 45 to 54.\<close>

definition make_filename :: "world \<Rightarrow> string \<Rightarrow> string \<Rightarrow> string" where
  "make_filename w url content_type =
     (let filename = basename (urlparse_path w url);
          filename =
            (if filename = [] \<or> CHR ''.'' \<notin> set filename
             then ''ubuntu_image_'' @ str_int (hash w url mod 10000)
                    @ py_or (get_extension_from_content_type content_type) ''.jpg''
             else filename)
      in sanitize_filename filename)"

text \<open>The f-string of line 66.\<close>

definition numbered :: "string \<Rightarrow> string \<Rightarrow> nat \<Rightarrow> string" where
  "numbered base ext counter = base @ ''_'' @ str_nat counter @ ext"


text \<open>The \<^verbatim>\<open>while os.path.exists(filepath)\<close> loop of lines 65 to 68, on the loop
  variables \<open>filename\<close>, \<open>filepath\<close> and \<open>counter\<close>. It ends because the names it
  tries are pairwise different (the decimal rendering of the counter is injective) and
  the existing paths are finitely many.\<close>

function unique_name ::
  "string list \<Rightarrow> string \<Rightarrow> string \<Rightarrow> string \<Rightarrow> string \<Rightarrow> nat \<Rightarrow> string \<times> string" where
  "unique_name paths base ext filename filepath counter =
     (if filepath \<in> set paths
      then unique_name paths base ext
             (numbered base ext counter)
             (path_join ''Fetched_Images'' (numbered base ext counter))
             (Suc counter)
      else (filename, filepath))"
  by pat_completeness auto
termination
proof -
  have digit_char_inj: "a = b" if "a < 10" "b < 10" "digit_char a = digit_char b" for a b
  proof -
    have "distinct ''0123456789''" by simp
    with that show ?thesis
      by (simp add: digit_char_def nth_eq_iff_index_eq)
  qed
  have str_nat_nonempty: "str_nat n \<noteq> []" for n
    by (simp add: str_nat.simps [of n])
  have str_nat_length: "length (str_nat n) = 1 \<longleftrightarrow> n < 10" for n
    using str_nat_nonempty [of "n div 10"] by (simp add: str_nat.simps [of n])
  have str_nat_inj: "m = n" if "str_nat m = str_nat n" for m n
    using that
  proof (induction n arbitrary: m rule: less_induct)
    case (less n)
    from less.prems have "length (str_nat m) = 1 \<longleftrightarrow> length (str_nat n) = 1"
      by simp
    then have same: "m < 10 \<longleftrightarrow> n < 10"
      by (simp only: str_nat_length)
    show ?case
    proof (cases "n < 10")
      case True
      with same less.prems show ?thesis
        by (simp add: str_nat.simps [of m] str_nat.simps [of n] digit_char_inj)
    next
      case False
      with same less.prems
      have "str_nat (m div 10) = str_nat (n div 10)"
        "digit_char (m mod 10) = digit_char (n mod 10)"
        by (simp_all add: str_nat.simps [of m] str_nat.simps [of n])
      moreover from False have "n div 10 < n" by simp
      ultimately have "m div 10 = n div 10" "m mod 10 = n mod 10"
        using less.IH digit_char_inj [of "m mod 10" "n mod 10"] by auto
      then show ?thesis
        by (metis div_mult_mod_eq)
    qed
  qed
  have numbered_inj: "j = k"
    if eq: "path_join d (numbered base ext j) = path_join d (numbered base ext k)"
    for d base ext j k
  proof -
    have pre: "prefix ''/'' (numbered base ext j) \<longleftrightarrow> prefix ''/'' (numbered base ext k)"
      by (cases base) (simp_all add: numbered_def)
    from eq pre have "numbered base ext j = numbered base ext k"
      by (auto simp: path_join_def split: if_splits)
    then show ?thesis
      by (simp add: numbered_def str_nat_inj)
  qed
  have filter_length_le: "length (filter Q xs) \<le> length (filter P xs)"
    if "\<And>x. Q x \<Longrightarrow> P x" for P Q :: "string \<Rightarrow> bool" and xs
    by (induction xs) (auto dest: that)
  have filter_length_less: "length (filter Q xs) < length (filter P xs)"
    if sub: "\<And>x. Q x \<Longrightarrow> P x" and x: "x \<in> set xs" "P x" "\<not> Q x"
    for P Q :: "string \<Rightarrow> bool" and x xs
    using x(1)
  proof (induction xs)
    case Nil
    then show ?case by simp
  next
    case (Cons y ys)
    have le: "length (filter Q ys) \<le> length (filter P ys)"
      by (rule filter_length_le) (rule sub)
    show ?case
    proof (cases "x = y")
      case True
      with x(2,3) le show ?thesis by simp
    next
      case False
      with Cons have "length (filter Q ys) < length (filter P ys)" by simp
      then show ?thesis using sub [of y] by auto
    qed
  qed
  show ?thesis
  proof (relation "measure (\<lambda>(paths, base, ext, filename, filepath, counter).
      2 * length (filter (\<lambda>p. \<exists>k\<ge>counter. p = path_join ''Fetched_Images'' (numbered base ext k)) paths)
      + (if filepath \<in> set paths then 1 else 0))", goal_cases)
    case 1
    show ?case by simp
  next
    case (2 paths base ext filename filepath counter)
    let ?mk = "\<lambda>k. path_join ''Fetched_Images'' (numbered base ext k)"
    let ?P = "\<lambda>p. \<exists>k\<ge>counter. p = ?mk k"
    let ?Q = "\<lambda>p. \<exists>k\<ge>Suc counter. p = ?mk k"
    have QP: "\<And>p. ?Q p \<Longrightarrow> ?P p" using Suc_leD by blast
    show ?case
    proof (cases "?mk counter \<in> set paths")
      case True
      have "\<not> ?Q (?mk counter)"
        using numbered_inj [of "''Fetched_Images''" base ext counter] by fastforce
      moreover have "?P (?mk counter)" by blast
      ultimately have "length (filter ?Q paths) < length (filter ?P paths)"
        using filter_length_less [of ?Q ?P "?mk counter" paths] QP True by blast
      with 2 True show ?thesis by simp
    next
      case False
      have "length (filter ?Q paths) \<le> length (filter ?P paths)"
        using filter_length_le [of ?Q ?P paths] QP by blast
      with 2 False show ?thesis by simp
    qed
  qed
qed

declare unique_name.simps [simp del]

text \<open>Lines 55 to 69.\<close>

definition resolve_duplicate ::
  "world \<Rightarrow> string \<Rightarrow> state \<Rightarrow> (string \<times> string) res \<times> state" where
  "resolve_duplicate w filename s =
     (let filepath = path_join ''Fetched_Images'' filename
      in if filepath \<in> set (existing w)
         then bnd (py_input Overwrite)
                (\<lambda>choice s.
                   if lower choice \<noteq> ''y''
                   then (case splitext filename of
                           (base, ext) \<Rightarrow>
                             (case unique_name (existing w) base ext filename filepath 1 of
                                (filename, filepath) \<Rightarrow>
                                  (Value (filename, filepath), py_print (SavingAs filename) s)))
                   else (Value (filename, filepath), s))
                (py_print (FileExists filename) s)
         else (Value (filename, filepath), s))"

text \<open>The true division \<^verbatim>\<open>file_size / (1024*1024)\<close> in the f-string of line 74 raises
  \<^verbatim>\<open>OverflowError\<close> when the correctly rounded quotient is no \<^verbatim>\<open>float\<close>: from
  \<^verbatim>\<open>(2**1024 - 2**970) * 2**20\<close> on.\<close>

definition float_overflow :: "int \<Rightarrow> bool" where
  "float_overflow file_size \<longleftrightarrow> (2 ^ 1024 - 2 ^ 970) * 2 ^ 20 \<le> file_size"

text \<open>Lines 72 to 78.\<close>

definition check_size :: "response \<Rightarrow> state \<Rightarrow> int res \<times> state" where
  "check_size response s =
     (case declared_size response of
        None \<Rightarrow> (Raise ValueError, s)
      | Some file_size \<Rightarrow>
          if 50 * 1024 * 1024 < file_size
          then if float_overflow file_size then (Raise OverflowError, s)
               else bnd (py_input ContinueDownload)
                      (\<lambda>proceed s.
                         if lower proceed \<noteq> ''y''
                         then (Return, py_print DownloadCancelled s)
                         else (Value file_size, s))
                      (py_print (LargeFile file_size) s)
          else (Value file_size, s))"

text \<open>The loop of lines 81 to 83: empty chunks are skipped.\<close>

definition write_chunks :: "string list \<Rightarrow> state \<Rightarrow> state" where
  "write_chunks chunks s =
     foldl (\<lambda>s chunk. if chunk \<noteq> [] then emit (Write chunk) s else s) s chunks"

text \<open>Lines 80 to 95; \<^verbatim>\<open>os.path.getsize\<close> gives the number of bytes written.\<close>

definition save ::
  "world \<Rightarrow> response \<Rightarrow> string \<Rightarrow> string \<Rightarrow> int \<Rightarrow> state \<Rightarrow> unit res \<times> state" where
  "save w response filename filepath file_size s =
     (case open_wb w filepath of
        Some e \<Rightarrow> (Raise e, s)
      | None \<Rightarrow>
          (let s = emit (Open filepath) s;
               s = write_chunks (iter_content response) s
           in case iter_error response of
                Some e \<Rightarrow> (Raise e, s)
              | None \<Rightarrow>
                  (let actual_size = int (length (concat (iter_content response)));
                       s = py_print (Fetched filename) s;
                       s = py_print (SavedTo filepath) s;
                       s = py_print (FileSize actual_size) s;
                       s = (if 0 < file_size \<and> actual_size \<noteq> file_size
                            then py_print SizeMismatch s else s);
                       s = py_print Strengthened s;
                       s = py_print ThankYou s
                   in (Value (), s))))"

text \<open>The body of the \<^verbatim>\<open>try\<close> statement, lines 23 to 95.\<close>

definition try_body :: "world \<Rightarrow> string \<Rightarrow> state \<Rightarrow> unit res \<times> state" where
  "try_body w url =
     bnd (fetch w url) (\<lambda>response.
       let content_type = content_type_of response
       in bnd (check_content_type content_type) (\<lambda>_.
            bnd (resolve_duplicate w (make_filename w url content_type)) (\<lambda>(filename, filepath).
              bnd (check_size response) (\<lambda>file_size.
                save w response filename filepath file_size))))"

text \<open>The \<^verbatim>\<open>except\<close> clauses, lines 97 to 114: the first clause that matches.\<close>

definition matching_clause :: "exn \<Rightarrow> clause option" where
  "matching_clause e =
     (case e of
        ConnectionError \<Rightarrow> Some ExceptConnectionError
      | Timeout \<Rightarrow> Some ExceptTimeout
      | HTTPError \<Rightarrow> Some ExceptHTTPError
      | RequestException \<Rightarrow> Some ExceptRequestException
      | PermissionError \<Rightarrow> Some ExceptPermissionError
      | EOFError \<Rightarrow> Some ExceptException
      | ValueError \<Rightarrow> Some ExceptException
      | OverflowError \<Rightarrow> Some ExceptException
      | OSError \<Rightarrow> Some ExceptException
      | KeyboardInterrupt \<Rightarrow> None)"

text \<open>How a call of \<^verbatim>\<open>main\<close> ends: it returns, or an exception leaves it.\<close>

datatype outcome = Returned | Propagated exn

definition except_clauses :: "exn \<Rightarrow> state \<Rightarrow> outcome \<times> state" where
  "except_clauses e s =
     (case matching_clause e of
        None \<Rightarrow> (Propagated e, s)
      | Some c \<Rightarrow> (Returned, py_print (WisdomLine c) (py_print (ErrorLine c) s)))"

definition main :: "world \<Rightarrow> outcome \<times> state" where
  "main w =
     (let s = \<lparr>inp = stdin w, trace = []\<rparr>;
          s = py_print Welcome s;
          s = py_print Tagline s
      in case py_input EnterUrl s of
           (Raise e, s) \<Rightarrow> (Propagated e, s)
         | (Return, s) \<Rightarrow> (Returned, s)
         | (Value line, s) \<Rightarrow>
             (let url = strip line
              in if url = [] then (Returned, py_print NoUrlProvided s)
                 else (case try_body w url s of
                         (Raise e, s) \<Rightarrow> except_clauses e s
                       | (Return, s) \<Rightarrow> (Returned, s)
                       | (Value _, s) \<Rightarrow> (Returned, s))))"

subsection \<open>Notions used in the proofs\<close>

text \<open>A block that did not fall through ends the enclosing block the same way.\<close>

definition stopped :: "'a res \<Rightarrow> 'b res \<Rightarrow> bool" where
  "stopped x r = ((x = Return \<and> r = Return) \<or> (\<exists>e. x = Raise e \<and> r = Raise e))"


text \<open>A trace in which no file is created or written.\<close>

definition no_file :: "event list \<Rightarrow> bool" where
  "no_file evs \<longleftrightarrow> (\<forall>q. Open q \<notin> set evs) \<and> (\<forall>c. Write c \<notin> set evs)"

subsection \<open>Example runs\<close>

text \<open>Scenario A of the specification: \<^verbatim>\<open>https://example.com/cat.png\<close>, served as
  \<^verbatim>\<open>image/png\<close>, three bytes long, into an empty directory.\<close>

definition cat_response :: response where
  "cat_response =
     \<lparr>raise_for_status = None,
      headers = [(''content-type'', ''image/png''), (''content-length'', ''3'')],
      iter_content = [''abc''],
      iter_error = None\<rparr>"

definition cat_world :: world where
  "cat_world =
     \<lparr>stdin = [''https://example.com/cat.png''],
      makedirs = None,
      requests_get = (\<lambda>url. Inr cat_response),
      urlparse_path = (\<lambda>url. ''/cat.png''),
      hash = (\<lambda>url. 123456789),
      existing = [],
      open_wb = (\<lambda>filepath. None)\<rparr>"


text \<open>Standard input is at its end when the URL is asked for.\<close>

definition no_input_world :: world where
  "no_input_world = cat_world\<lparr>stdin := []\<rparr>"

text \<open>The server cannot be reached.\<close>

definition offline_world :: world where
  "offline_world = cat_world\<lparr>requests_get := (\<lambda>url. Inl ConnectionError)\<rparr>"

text \<open>Scenario D: a page served as \<^verbatim>\<open>text/html\<close>, and the user answers \<^verbatim>\<open>n\<close>.\<close>

definition html_response :: response where
  "html_response = cat_response\<lparr>headers := [(''content-type'', ''text/html'')]\<rparr>"

definition html_world :: world where
  "html_world =
     cat_world\<lparr>stdin := [''https://example.com/page.html'', ''n''],
       requests_get := (\<lambda>url. Inr html_response),
       urlparse_path := (\<lambda>url. ''/page.html'')\<rparr>"

text \<open>The same page, and standard input ends after the URL.\<close>

definition silent_world :: world where
  "silent_world = html_world\<lparr>stdin := [''https://example.com/page.html'']\<rparr>"

text \<open>Scenario C: \<^verbatim>\<open>Fetched_Images/cat.png\<close> exists and the user answers \<^verbatim>\<open>n\<close> to
  the overwrite prompt.\<close>

definition keep_world :: world where
  "keep_world =
     cat_world\<lparr>stdin := [''https://example.com/cat.png'', ''n''],
       existing := [''Fetched_Images/cat.png'']\<rparr>"

text \<open>The same, and the user answers \<^verbatim>\<open>y\<close>.\<close>

definition overwrite_world :: world where
  "overwrite_world =
     cat_world\<lparr>stdin := [''https://example.com/cat.png'', ''y''],
       existing := [''Fetched_Images/cat.png'']\<rparr>"

text \<open>The image arrives with the header \<^verbatim>\<open>content-length: abc\<close>.\<close>

definition bad_length_response :: response where
  "bad_length_response =
     cat_response\<lparr>headers := [(''content-type'', ''image/png''), (''content-length'', ''abc'')]\<rparr>"

definition bad_length_world :: world where
  "bad_length_world = cat_world\<lparr>requests_get := (\<lambda>url. Inr bad_length_response)\<rparr>"

text \<open>The image arrives as \<^verbatim>\<open>Image/PNG\<close>, and the user answers \<^verbatim>\<open>Y\<close>.\<close>

definition upper_case_response :: response where
  "upper_case_response =
     cat_response\<lparr>headers := [(''content-type'', ''Image/PNG''), (''content-length'', ''3'')]\<rparr>"

definition upper_case_world :: world where
  "upper_case_world =
     cat_world\<lparr>stdin := [''https://example.com/cat.png'', ''Y''],
       requests_get := (\<lambda>url. Inr upper_case_response)\<rparr>"

text \<open>Scenario B: the path \<^verbatim>\<open>/image\<close> has no extension.\<close>

definition image_world :: world where
  "image_world =
     cat_world\<lparr>stdin := [''https://example.com/image''],
       urlparse_path := (\<lambda>url. ''/image'')\<rparr>"

text \<open>The server answers 404: \<^verbatim>\<open>raise_for_status\<close> raises \<^verbatim>\<open>HTTPError\<close>.\<close>

definition not_found_response :: response where
  "not_found_response = cat_response\<lparr>raise_for_status := Some HTTPError\<rparr>"

definition not_found_world :: world where
  "not_found_world = cat_world\<lparr>requests_get := (\<lambda>url. Inr not_found_response)\<rparr>"



text \<open>Scenario C again, with \<^verbatim>\<open>Fetched_Images/cat_1.png\<close> present as well.\<close>

definition twice_world :: world where
  "twice_world =
     keep_world\<lparr>existing := [''Fetched_Images/cat.png'', ''Fetched_Images/cat_1.png'']\<rparr>"

section \<open>Verification\<close>


subsection \<open>Properties of sanitize_filename\<close>

lemma replace_dangerous_map: "replace_dangerous filename = map safe_char filename"
  by (simp add: replace_dangerous_def dangerous_chars_def replace_def safe_char_def)

lemma safe_char_not_dangerous: "safe_char c \<notin> set dangerous_chars"
  by (simp add: safe_char_def dangerous_chars_def)

lemma safe_char_dot: "safe_char c = CHR ''.'' \<longleftrightarrow> c = CHR ''.''"
  by (simp add: safe_char_def dangerous_chars_def)

lemma safe_char_id: "set s \<inter> set dangerous_chars = {} \<Longrightarrow> map safe_char s = s"
  by (induction s) (auto simp: safe_char_def)

lemma splitext_append: "splitext p = (name, ext) \<Longrightarrow> name @ ext = p"
  by (auto simp: splitext_def Let_def split: if_splits)

lemma set_slice_to: "set (slice_to xs k) \<subseteq> set xs"
  by (auto simp: slice_to_def dest: in_set_takeD)

lemma sanitize_filename_subset:
  "set (sanitize_filename filename) \<subseteq> set (replace_dangerous filename)"
proof (cases "splitext (replace_dangerous filename)")
  case (Pair name ext)
  from splitext_append [OF Pair] have "set name \<union> set ext = set (replace_dangerous filename)"
    by (metis set_append)
  with Pair set_slice_to [of name] show ?thesis
    by (auto simp: sanitize_filename_def Let_def)
qed

lemma sanitize_filename_no_dangerous:
  "set (sanitize_filename filename) \<inter> set dangerous_chars = {}"
  using sanitize_filename_subset [of filename] safe_char_not_dangerous
  by (auto simp: replace_dangerous_map)

lemma sanitize_filename_short:
  "length filename \<le> 255 \<Longrightarrow> sanitize_filename filename = map safe_char filename"
  by (simp add: sanitize_filename_def replace_dangerous_map)

lemma sanitize_filename_safe:
  assumes "set filename \<inter> set dangerous_chars = {}" "length filename \<le> 255"
  shows "sanitize_filename filename = filename"
  using assms by (simp add: sanitize_filename_short safe_char_id)

text \<open>
  Claim C6. For every input filename, the output of \<^verbatim>\<open>sanitize_filename\<close> contains
  none of the nine dangerous characters, and the replacement loop replaces each
  occurrence of such a character by an underscore, one for one: it is the map of
  \<^const>\<open>safe_char\<close> over the input, so every other character and the order stay. A
  filename of at most 255 characters is returned as exactly that map.
\<close>

theorem sanitize_filename_replaces:
  "set (sanitize_filename filename) \<inter> set dangerous_chars = {} \<and>
   replace_dangerous filename = map safe_char filename \<and>
   (length filename \<le> 255 \<longrightarrow> sanitize_filename filename = map safe_char filename)"
  by (simp add: sanitize_filename_no_dangerous replace_dangerous_map sanitize_filename_short)

theorem sanitize_filename_replaces_witness:
  "set (sanitize_filename [CHR ''a'', CHR ''<'', CHR ''>'', CHR '':'', CHR 0x22, CHR ''/'', CHR 0x5C, CHR ''|'', CHR ''?'', CHR ''*'', CHR ''.'', CHR ''b''])
     \<inter> set dangerous_chars = {} \<and>
   sanitize_filename [CHR ''a'', CHR ''<'', CHR ''>'', CHR '':'', CHR 0x22, CHR ''/'', CHR 0x5C, CHR ''|'', CHR ''?'', CHR ''*'', CHR ''.'', CHR ''b'']
     = ''a_________.b''"
  using sanitize_filename_replaces [of "[CHR ''a'', CHR ''<'', CHR ''>'', CHR '':'', CHR 0x22, CHR ''/'', CHR 0x5C, CHR ''|'', CHR ''?'', CHR ''*'', CHR ''.'', CHR ''b'']"]
  by (simp add: safe_char_def dangerous_chars_def)

subsection \<open>Properties of get_extension_from_content_type\<close>

lemma get_extension_cases:
  "get_extension_from_content_type content_type =
     (if lower content_type = ''image/jpeg'' then Some ''.jpg''
      else if lower content_type = ''image/jpg'' then Some ''.jpg''
      else if lower content_type = ''image/png'' then Some ''.png''
      else if lower content_type = ''image/gif'' then Some ''.gif''
      else if lower content_type = ''image/webp'' then Some ''.webp''
      else if lower content_type = ''image/bmp'' then Some ''.bmp''
      else if lower content_type = ''image/svg+xml'' then Some ''.svg''
      else if lower content_type = ''image/tiff'' then Some ''.tiff''
      else None)"
  by (simp add: get_extension_from_content_type_def extensions_def)






subsection \<open>splitext and the length limit\<close>

lemma rfind_range: "- 1 \<le> rfind xs c \<and> rfind xs c < int (length xs)"
  by (induction xs) (auto simp: Let_def)

lemma rfind_notin: "c \<notin> set xs \<Longrightarrow> rfind xs c = - 1"
  by (induction xs) (auto simp: Let_def)

lemma rfind_map:
  assumes "\<And>x. g x = c \<longleftrightarrow> x = c"
  shows "rfind (map g xs) c = rfind xs c"
  by (induction xs) (auto simp: Let_def assms)

lemma leading_dots_end_iff:
  "leading_dots_end p i d \<longleftrightarrow> (\<exists>j. i \<le> j \<and> j < d \<and> take 1 (drop j p) \<noteq> ''.'')"
proof (induction p i d rule: leading_dots_end.induct)
  case (1 p i d)
  show ?case
  proof (cases "i < d")
    case False
    then show ?thesis by (simp add: leading_dots_end.simps [of p i d])
  next
    case True
    show ?thesis
    proof (cases "take 1 (drop i p) \<noteq> ''.''")
      case True
      with \<open>i < d\<close> show ?thesis
        by (auto simp: leading_dots_end.simps [of p i d])
    next
      case False
      then have dot: "take 1 (drop i p) = ''.''" by simp
      have "leading_dots_end p i d = leading_dots_end p (Suc i) d"
        using \<open>i < d\<close> dot by (simp add: leading_dots_end.simps [of p i d])
      also have "\<dots> \<longleftrightarrow> (\<exists>j. Suc i \<le> j \<and> j < d \<and> take 1 (drop j p) \<noteq> ''.'')"
        using "1.IH" [OF \<open>i < d\<close>] dot by simp
      also have "\<dots> \<longleftrightarrow> (\<exists>j. i \<le> j \<and> j < d \<and> take 1 (drop j p) \<noteq> ''.'')"
        using dot by (metis Suc_leD Suc_leI le_neq_implies_less)
      finally show ?thesis .
    qed
  qed
qed

lemma take1_drop_map:
  "take 1 (drop j (map safe_char p)) = ''.'' \<longleftrightarrow> take 1 (drop j p) = ''.''"
  by (cases "drop j p") (auto simp: drop_map safe_char_dot)

lemma rfind_safe_sep: "rfind (map safe_char p) CHR ''/'' = - 1"
proof (rule rfind_notin)
  have "CHR ''/'' \<in> set dangerous_chars" by (simp add: dangerous_chars_def)
  with safe_char_not_dangerous show "CHR ''/'' \<notin> set (map safe_char p)"
    by (auto simp: image_iff)
qed

lemma rfind_safe_dot: "rfind (map safe_char p) CHR ''.'' = rfind p CHR ''.''"
  by (rule rfind_map) (rule safe_char_dot)

lemma splitext_replaced:
  assumes "snd (splitext p) \<noteq> []"
  shows "snd (splitext (map safe_char p)) = map safe_char (snd (splitext p))"
proof -
  let ?s = "rfind p CHR ''/''" and ?d = "rfind p CHR ''.''"
  from assms have sd: "?s < ?d" and lde: "leading_dots_end p (nat (?s + 1)) (nat ?d)"
    and ext: "snd (splitext p) = drop (nat ?d) p"
    by (auto simp: splitext_def Let_def split: if_splits)
  from rfind_range [of p "CHR ''/''"] sd have d0: "- 1 < ?d" by linarith
  from lde obtain j where "j < nat ?d" "take 1 (drop j p) \<noteq> ''.''"
    by (auto simp: leading_dots_end_iff)
  then have "0 \<le> j \<and> j < nat ?d \<and> take 1 (drop j (map safe_char p)) \<noteq> ''.''"
    by (simp only: take1_drop_map) simp
  then have "\<exists>j. 0 \<le> j \<and> j < nat ?d \<and> take 1 (drop j (map safe_char p)) \<noteq> ''.''" ..
  then have "leading_dots_end (map safe_char p) 0 (nat ?d)"
    by (simp only: leading_dots_end_iff)
  with d0 have "snd (splitext (map safe_char p)) = drop (nat ?d) (map safe_char p)"
    by (simp add: splitext_def rfind_safe_sep rfind_safe_dot Let_def)
  with ext show ?thesis by (simp add: drop_map)
qed

lemma sanitize_filename_long:
  assumes "255 < length filename" "splitext (replace_dangerous filename) = (name, ext)"
  shows "sanitize_filename filename = slice_to name (255 - int (length ext)) @ ext"
  using assms by (simp add: sanitize_filename_def replace_dangerous_map)

lemma sanitize_filename_length:
  assumes "255 < length filename"
    and "length (snd (splitext (replace_dangerous filename))) \<le> 255"
  shows "length (sanitize_filename filename) = 255"
proof (cases "splitext (replace_dangerous filename)")
  case (Pair name ext)
  with assms(2) have ext: "length ext \<le> 255" by simp
  from splitext_append [OF Pair] have "length name + length ext = length filename"
    by (metis length_append length_map replace_dangerous_map)
  with assms(1) ext have "255 - length ext \<le> length name" by linarith
  moreover have "nat (255 - int (length ext)) = 255 - length ext"
    by linarith
  moreover have "\<not> 255 - int (length ext) < 0"
    using ext by linarith
  ultimately have "length (slice_to name (255 - int (length ext))) = 255 - length ext"
    by (simp add: slice_to_def)
  with ext show ?thesis
    by (simp add: sanitize_filename_long [OF assms(1) Pair])
qed

text \<open>Sanitizing twice is sanitizing once whenever the extension of the replaced name
  has at most 255 characters.\<close>

lemma sanitize_filename_idempotent:
  assumes "length (snd (splitext (replace_dangerous filename))) \<le> 255"
  shows "sanitize_filename (sanitize_filename filename) = sanitize_filename filename"
proof (rule sanitize_filename_safe)
  show "set (sanitize_filename filename) \<inter> set dangerous_chars = {}"
    by (rule sanitize_filename_no_dangerous)
  show "length (sanitize_filename filename) \<le> 255"
  proof (cases "255 < length filename")
    case True
    from sanitize_filename_length [OF True assms] show ?thesis by simp
  next
    case False
    then show ?thesis by (simp add: sanitize_filename_short)
  qed
qed

text \<open>
  Claim C1 says that for every filename longer than 255 characters the output has at
  most 255 characters and ends with the extension of the input. At the name \<^verbatim>\<open>a.\<close>
  followed by 300 question marks both fail: the extension is longer than 255
  characters, so \<^verbatim>\<open>255 - len(ext)\<close> is negative and the output has 301 characters;
  and the question marks of the extension are replaced before the split.
\<close>

theorem sanitize_filename_long_extension:
  "255 < length (''a.'' @ replicate 300 CHR ''?'') \<and>
   snd (splitext (''a.'' @ replicate 300 CHR ''?'')) = ''.'' @ replicate 300 CHR ''?'' \<and>
   sanitize_filename (''a.'' @ replicate 300 CHR ''?'') = ''.'' @ replicate 300 CHR ''_'' \<and>
   \<not> length (sanitize_filename (''a.'' @ replicate 300 CHR ''?'')) \<le> 255 \<and>
   \<not> suffix (snd (splitext (''a.'' @ replicate 300 CHR ''?'')))
        (sanitize_filename (''a.'' @ replicate 300 CHR ''?''))"
  by code_simp

text \<open>
  Claim C1, amended. For every filename longer than 255 characters the output ends
  with the extension of the input in which the dangerous characters are replaced by
  underscores, which is the extension of the replaced name where the input has one; and
  when the extension of the replaced name has at most 255 characters, the output has
  exactly 255 characters.
\<close>

theorem sanitize_filename_truncates:
  assumes "255 < length filename"
  shows "suffix (replace_dangerous (snd (splitext filename))) (sanitize_filename filename) \<and>
         suffix (snd (splitext (replace_dangerous filename))) (sanitize_filename filename) \<and>
         (length (snd (splitext (replace_dangerous filename))) \<le> 255 \<longrightarrow>
            length (sanitize_filename filename) = 255)"
proof (cases "splitext (replace_dangerous filename)")
  case (Pair name ext)
  note out = sanitize_filename_long [OF assms Pair]
  have s2: "suffix ext (sanitize_filename filename)"
    by (simp add: out suffix_def)
  have s1: "suffix (replace_dangerous (snd (splitext filename))) (sanitize_filename filename)"
  proof (cases "snd (splitext filename) = []")
    case True
    then show ?thesis by (simp add: replace_dangerous_map)
  next
    case False
    from splitext_replaced [OF False] Pair
    have "replace_dangerous (snd (splitext filename)) = ext"
      by (simp add: replace_dangerous_map)
    with s2 show ?thesis by simp
  qed
  have len: "length (sanitize_filename filename) = 255" if "length ext \<le> 255"
    using sanitize_filename_length [OF assms] that Pair by simp
  from s1 s2 len Pair show ?thesis by simp
qed

lemma long_name_eval1: "length (replicate 300 CHR ''a'' @ ''.p?g'') = 304" by simp
lemma long_name_eval2: "snd (splitext (replicate 300 CHR ''a'' @ ''.p?g'')) = ''.p?g''" by code_simp
lemma long_name_eval3: "replace_dangerous ''.p?g'' = ''.p_g''" by code_simp
lemma long_name_eval4: "snd (splitext (replace_dangerous (replicate 300 CHR ''a'' @ ''.p?g''))) = ''.p_g''" by code_simp

theorem sanitize_filename_truncates_witness:
  "255 < length (replicate 300 CHR ''a'' @ ''.p?g'') \<and>
   suffix ''.p_g'' (sanitize_filename (replicate 300 CHR ''a'' @ ''.p?g'')) \<and>
   length (sanitize_filename (replicate 300 CHR ''a'' @ ''.p?g'')) = 255"
  using sanitize_filename_truncates [of "replicate 300 CHR ''a'' @ ''.p?g''"]
  by (simp add: long_name_eval2 long_name_eval3 long_name_eval4)

text \<open>
  Claim C8 says that \<^verbatim>\<open>sanitize_filename\<close> returns a safe filename of at most 255
  characters unchanged (lemma \<open>sanitize_filename_safe\<close> above) and, as an equivalent,
  that sanitizing twice equals sanitizing once for every input (which holds where the
  extension has at most 255 characters, lemma \<open>sanitize_filename_idempotent\<close>). At
  the name \<^verbatim>\<open>a.\<close> followed by 300 letters the length limit fails: the first output
  has 301 characters and the second 255.
\<close>

theorem sanitize_filename_twice:
  "sanitize_filename (''a.'' @ replicate 300 CHR ''b'') = ''.'' @ replicate 300 CHR ''b'' \<and>
   sanitize_filename (sanitize_filename (''a.'' @ replicate 300 CHR ''b''))
     = ''.'' @ replicate 254 CHR ''b'' \<and>
   sanitize_filename (sanitize_filename (''a.'' @ replicate 300 CHR ''b''))
     \<noteq> sanitize_filename (''a.'' @ replicate 300 CHR ''b'')"
  by code_simp


subsection \<open>The synthesized filename\<close>

lemma digit_char_digit: "d < 10 \<Longrightarrow> digit_char d \<in> set ''0123456789''"
  unfolding digit_char_def by (rule nth_mem) simp

lemma str_nat_digits: "set (str_nat n) \<subseteq> set ''0123456789''"
proof (induction n rule: less_induct)
  case (less n)
  show ?case
  proof (cases "n < 10")
    case True
    with digit_char_digit [of n] show ?thesis
      by (simp add: str_nat.simps [of n])
  next
    case False
    then have "n div 10 < n" by simp
    from less [OF this] digit_char_digit [of "n mod 10"] False show ?thesis
      by (simp add: str_nat.simps [of n])
  qed
qed

lemma str_nat_short: "n < 10000 \<Longrightarrow> length (str_nat n) \<le> 4"
  by (simp add: str_nat.simps [of n] str_nat.simps [of "n div 10"]
      str_nat.simps [of "n div 10 div 10"] str_nat.simps [of "n div 10 div 10 div 10"])

lemma extension_safe:
  "set (py_or (get_extension_from_content_type content_type) ''.jpg'') \<inter> set dangerous_chars = {} \<and>
   length (py_or (get_extension_from_content_type content_type) ''.jpg'') \<le> 5"
  by (simp add: get_extension_cases py_or_def dangerous_chars_def)

lemma synthesized_safe:
  assumes "0 \<le> n" "n < 10000"
  shows "sanitize_filename (''ubuntu_image_'' @ str_int n @ py_or (get_extension_from_content_type ct) ''.jpg'')
         = ''ubuntu_image_'' @ str_int n @ py_or (get_extension_from_content_type ct) ''.jpg''"
proof (rule sanitize_filename_safe)
  let ?ext = "py_or (get_extension_from_content_type ct) ''.jpg''"
  from assms have s: "str_int n = str_nat (nat n)" and small: "nat n < 10000"
    by (simp_all add: str_int_def)
  have "set (str_nat (nat n)) \<inter> set dangerous_chars = {}"
    using str_nat_digits [of "nat n"] by (auto simp: dangerous_chars_def)
  moreover have "set ''ubuntu_image_'' \<inter> set dangerous_chars = {}"
    by (simp add: dangerous_chars_def)
  ultimately show "set (''ubuntu_image_'' @ str_int n @ ?ext) \<inter> set dangerous_chars = {}"
    using extension_safe [of ct] unfolding s set_append by blast
  show "length (''ubuntu_image_'' @ str_int n @ ?ext) \<le> 255"
    using str_nat_short [OF small] extension_safe [of ct] by (simp add: s)
qed

lemma py_or_table:
  "py_or (get_extension_from_content_type content_type) ''.jpg'' =
     (if lower content_type = ''image/jpeg'' then ''.jpg''
      else if lower content_type = ''image/jpg'' then ''.jpg''
      else if lower content_type = ''image/png'' then ''.png''
      else if lower content_type = ''image/gif'' then ''.gif''
      else if lower content_type = ''image/webp'' then ''.webp''
      else if lower content_type = ''image/bmp'' then ''.bmp''
      else if lower content_type = ''image/svg+xml'' then ''.svg''
      else if lower content_type = ''image/tiff'' then ''.tiff''
      else ''.jpg'')"
  by (simp add: get_extension_from_content_type_def extensions_def py_or_def)

text \<open>
  Claim C5. When the last path segment of the URL is empty or has no dot, the filename
  is \<^verbatim>\<open>ubuntu_image_\<close>, the decimal rendering of \<^verbatim>\<open>hash(url) % 10000\<close> (a number
  from 0 to 9999) and the extension of the table for the lower-cased content type:
  \<^verbatim>\<open>.jpg\<close> for \<^verbatim>\<open>image/jpeg\<close> and \<^verbatim>\<open>image/jpg\<close>, \<^verbatim>\<open>.png\<close>, \<^verbatim>\<open>.gif\<close>, \<^verbatim>\<open>.webp\<close>,
  \<^verbatim>\<open>.bmp\<close>, \<^verbatim>\<open>.svg\<close> for \<^verbatim>\<open>image/svg+xml\<close>, \<^verbatim>\<open>.tiff\<close>, and \<^verbatim>\<open>.jpg\<close> for every
  content type that is not in the table; \<^verbatim>\<open>sanitize_filename\<close> leaves that name
  as it is.
\<close>

theorem synthesized_filename:
  assumes "basename (urlparse_path w url) = [] \<or> CHR ''.'' \<notin> set (basename (urlparse_path w url))"
  shows "make_filename w url content_type =
           ''ubuntu_image_'' @ str_int (hash w url mod 10000) @
             (if lower content_type = ''image/jpeg'' then ''.jpg''
              else if lower content_type = ''image/jpg'' then ''.jpg''
              else if lower content_type = ''image/png'' then ''.png''
              else if lower content_type = ''image/gif'' then ''.gif''
              else if lower content_type = ''image/webp'' then ''.webp''
              else if lower content_type = ''image/bmp'' then ''.bmp''
              else if lower content_type = ''image/svg+xml'' then ''.svg''
              else if lower content_type = ''image/tiff'' then ''.tiff''
              else ''.jpg'') \<and>
         0 \<le> hash w url mod 10000 \<and> hash w url mod 10000 < 10000"
proof -
  have range: "0 \<le> hash w url mod 10000" "hash w url mod 10000 < 10000" by simp_all
  from assms have "make_filename w url content_type =
      sanitize_filename (''ubuntu_image_'' @ str_int (hash w url mod 10000) @
        py_or (get_extension_from_content_type content_type) ''.jpg'')"
    by (auto simp: make_filename_def Let_def)
  also have "\<dots> = ''ubuntu_image_'' @ str_int (hash w url mod 10000) @
        py_or (get_extension_from_content_type content_type) ''.jpg''"
    by (rule synthesized_safe [OF range])
  finally show ?thesis
    using range by (simp only: py_or_table)
qed

lemma str_int_6789: "str_int 6789 = ''6789''"
  by (simp add: str_int_def str_nat.simps [of 6789] str_nat.simps [of 678]
      str_nat.simps [of 67] str_nat.simps [of 6] digit_char_def)

lemma image_basename: "basename ''/image'' = ''image''"
  by code_simp

lemma lower_content_types:
  "lower ''image/jpeg'' = ''image/jpeg'' \<and> lower ''Image/PNG'' = ''image/png'' \<and>
   lower ''text/html'' = ''text/html'' \<and> lower [] = []"
  by code_simp

theorem synthesized_filename_witness:
  "CHR ''.'' \<notin> set (basename (urlparse_path image_world ''https://example.com/image'')) \<and>
   make_filename image_world ''https://example.com/image'' ''image/jpeg'' = ''ubuntu_image_6789.jpg'' \<and>
   make_filename image_world ''https://example.com/image'' ''Image/PNG'' = ''ubuntu_image_6789.png'' \<and>
   make_filename image_world ''https://example.com/image'' ''text/html'' = ''ubuntu_image_6789.jpg'' \<and>
   make_filename image_world ''https://example.com/image'' [] = ''ubuntu_image_6789.jpg''"
  using synthesized_filename [of image_world "''https://example.com/image''" "''image/jpeg''"]
    synthesized_filename [of image_world "''https://example.com/image''" "''Image/PNG''"]
    synthesized_filename [of image_world "''https://example.com/image''" "''text/html''"]
    synthesized_filename [of image_world "''https://example.com/image''" "[]"]
  by (simp add: image_world_def cat_world_def image_basename lower_content_types str_int_6789)

subsection \<open>The stages of main\<close>

lemma trace_emit [simp]: "trace (emit e s) = trace s @ [e]" by (simp add: emit_def)
lemma inp_emit [simp]: "inp (emit e s) = inp s" by (simp add: emit_def)
lemma trace_py_print [simp]: "trace (py_print m s) = trace s @ [Print m]" by (simp add: py_print_def)
lemma inp_py_print [simp]: "inp (py_print m s) = inp s" by (simp add: py_print_def)

lemma trace_write_chunks [simp]:
  "trace (write_chunks chunks s) = trace s @ map Write (filter (\<lambda>chunk. chunk \<noteq> []) chunks)"
  unfolding write_chunks_def by (induction chunks arbitrary: s) simp_all

lemma inp_write_chunks [simp]: "inp (write_chunks chunks s) = inp s"
  unfolding write_chunks_def by (induction chunks arbitrary: s) simp_all

lemma bnd_cases:
  assumes "bnd m f s = (r, t)"
  obtains (continue) a s' where "m s = (Value a, s')" "f a s' = (r, t)"
        | (stop) x where "m s = (x, t)" "stopped x r"
  using assms by (auto simp: bnd_def stopped_def split: prod.splits res.splits)

lemma try_body_cases:
  assumes "try_body w url s = (r, t)"
  obtains
    (in_fetch) x where "fetch w url s = (x, t)" "stopped x r"
  | (in_check) response s1 x where
      "fetch w url s = (Value response, s1)"
      "check_content_type (content_type_of response) s1 = (x, t)" "stopped x r"
  | (in_resolve) response s1 s2 x where
      "fetch w url s = (Value response, s1)"
      "check_content_type (content_type_of response) s1 = (Value (), s2)"
      "resolve_duplicate w (make_filename w url (content_type_of response)) s2 = (x, t)"
      "stopped x r"
  | (in_size) response s1 s2 filename filepath s3 x where
      "fetch w url s = (Value response, s1)"
      "check_content_type (content_type_of response) s1 = (Value (), s2)"
      "resolve_duplicate w (make_filename w url (content_type_of response)) s2
         = (Value (filename, filepath), s3)"
      "check_size response s3 = (x, t)" "stopped x r"
  | (in_save) response s1 s2 filename filepath s3 file_size s4 where
      "fetch w url s = (Value response, s1)"
      "check_content_type (content_type_of response) s1 = (Value (), s2)"
      "resolve_duplicate w (make_filename w url (content_type_of response)) s2
         = (Value (filename, filepath), s3)"
      "check_size response s3 = (Value file_size, s4)"
      "save w response filename filepath file_size s4 = (r, t)"
proof -
  from assms show thesis
    unfolding try_body_def Let_def
  proof (cases rule: bnd_cases)
    case (stop x)
    then show ?thesis by (rule in_fetch)
  next
    case (continue response s1)
    from continue(2) show ?thesis
    proof (cases rule: bnd_cases)
      case (stop x)
      with continue(1) show ?thesis by (intro in_check)
    next
      case c2: (continue u s2)
      from c2(2) show ?thesis
      proof (cases rule: bnd_cases)
        case (stop x)
        with continue(1) c2(1) show ?thesis by (intro in_resolve) auto
      next
        case c3: (continue nm s3)
        obtain filename filepath where nm: "nm = (filename, filepath)" by (cases nm)
        from c3(2) show ?thesis
          unfolding nm prod.case
        proof (cases rule: bnd_cases)
          case (stop x)
          with continue(1) c2(1) c3(1) nm show ?thesis by (intro in_size) auto
        next
          case c4: (continue file_size s4)
          with continue(1) c2(1) c3(1) nm show ?thesis by (intro in_save) auto
        qed
      qed
    qed
  qed
qed

lemma fetch_Value:
  "fetch w url s = (Value response, t) \<Longrightarrow>
     makedirs w = None \<and> requests_get w url = Inr response \<and> raise_for_status response = None \<and>
     inp t = inp s \<and>
     trace t = trace s @ [MakeDirs ''Fetched_Images'', Print Connecting, Get url]"
  by (auto simp: fetch_def Let_def split: option.splits sum.splits)

lemma fetch_stopped:
  "fetch w url s = (x, t) \<Longrightarrow> stopped x r \<Longrightarrow>
     (\<exists>e. r = Raise e) \<and> inp t = inp s \<and>
     (trace t = trace s \<or>
      trace t = trace s @ [MakeDirs ''Fetched_Images'', Print Connecting, Get url]) \<and>
     (makedirs w = None \<longrightarrow>
        (\<forall>response. requests_get w url = Inr response \<longrightarrow> raise_for_status response \<noteq> None))"
  by (auto simp: fetch_def Let_def stopped_def split: option.splits sum.splits)

lemma check_content_type_Value:
  "check_content_type ct s = (Value u, t) \<Longrightarrow>
     (prefix ''image/'' ct \<and> t = s) \<or>
     (\<not> prefix ''image/'' ct \<and>
      (\<exists>a. lower a = ''y'' \<and> inp s = a # inp t \<and>
         trace t = trace s @ [Print (ContentTypeWarning ct), Input ContinueAnyway (Some a)]))"
  by (auto simp: check_content_type_def bnd_def py_input_def stopped_def
      split: list.splits if_splits)

lemma check_content_type_stopped:
  "check_content_type ct s = (x, t) \<Longrightarrow> stopped x r \<Longrightarrow>
     \<not> prefix ''image/'' ct \<and>
     ((r = Raise EOFError \<and> inp s = [] \<and>
       trace t = trace s @ [Print (ContentTypeWarning ct), Input ContinueAnyway None]) \<or>
      (r = Return \<and>
       (\<exists>a. lower a \<noteq> ''y'' \<and> inp s = a # inp t \<and>
          trace t = trace s @ [Print (ContentTypeWarning ct),
            Input ContinueAnyway (Some a), Print OperationCancelled])))"
  by (auto simp: check_content_type_def bnd_def py_input_def stopped_def
      split: list.splits if_splits)

lemma resolve_duplicate_Value:
  "resolve_duplicate w filename s = (Value (fn, fp), t) \<Longrightarrow>
     (path_join ''Fetched_Images'' filename \<notin> set (existing w) \<and>
      fn = filename \<and> fp = path_join ''Fetched_Images'' filename \<and> t = s) \<or>
     (path_join ''Fetched_Images'' filename \<in> set (existing w) \<and>
      (\<exists>a. inp s = a # inp t \<and>
         ((lower a = ''y'' \<and> fn = filename \<and> fp = path_join ''Fetched_Images'' filename \<and>
           trace t = trace s @ [Print (FileExists filename), Input Overwrite (Some a)]) \<or>
          (lower a \<noteq> ''y'' \<and>
           (fn, fp) = unique_name (existing w) (fst (splitext filename)) (snd (splitext filename))
                        filename (path_join ''Fetched_Images'' filename) 1 \<and>
           trace t = trace s @ [Print (FileExists filename),
             Input Overwrite (Some a), Print (SavingAs fn)]))))"
  by (auto simp: resolve_duplicate_def bnd_def py_input_def Let_def
      split: list.splits if_splits prod.splits)

lemma resolve_duplicate_stopped:
  "resolve_duplicate w filename s = (x, t) \<Longrightarrow> stopped x r \<Longrightarrow>
     r = Raise EOFError \<and> inp s = [] \<and>
     trace t = trace s @ [Print (FileExists filename), Input Overwrite None]"
  by (auto simp: resolve_duplicate_def bnd_def py_input_def Let_def stopped_def
      split: list.splits if_splits prod.splits)

lemma check_size_Value:
  "check_size response s = (Value n, t) \<Longrightarrow>
     declared_size response = Some n \<and>
     ((\<not> 50 * 1024 * 1024 < n \<and> t = s) \<or>
      (50 * 1024 * 1024 < n \<and> \<not> float_overflow n \<and>
       (\<exists>a. lower a = ''y'' \<and> inp s = a # inp t \<and>
          trace t = trace s @ [Print (LargeFile n), Input ContinueDownload (Some a)])))"
  by (auto simp: check_size_def bnd_def py_input_def
      split: option.splits list.splits if_splits)

lemma check_size_stopped:
  "check_size response s = (x, t) \<Longrightarrow> stopped x r \<Longrightarrow>
     (declared_size response = None \<and> r = Raise ValueError \<and> t = s) \<or>
     (\<exists>n. declared_size response = Some n \<and> 50 * 1024 * 1024 < n \<and>
        float_overflow n \<and> r = Raise OverflowError \<and> t = s) \<or>
     (\<exists>n. declared_size response = Some n \<and> 50 * 1024 * 1024 < n \<and>
        \<not> float_overflow n \<and>
        ((r = Raise EOFError \<and> inp s = [] \<and>
          trace t = trace s @ [Print (LargeFile n), Input ContinueDownload None]) \<or>
         (r = Return \<and>
          (\<exists>a. lower a \<noteq> ''y'' \<and> inp s = a # inp t \<and>
             trace t = trace s @ [Print (LargeFile n),
               Input ContinueDownload (Some a), Print DownloadCancelled]))))"
  by (auto simp: check_size_def bnd_def py_input_def stopped_def
      split: option.splits list.splits if_splits)

lemma save_result:
  "save w response filename filepath file_size s = (r, t) \<Longrightarrow>
     r \<noteq> Return \<and> inp t = inp s \<and>
     (\<exists>evs. trace t = trace s @ evs \<and>
        (\<forall>q. Open q \<in> set evs \<longrightarrow> q = filepath) \<and>
        (\<forall>p a. Input p a \<notin> set evs) \<and>
        Print OperationCancelled \<notin> set evs \<and> Print DownloadCancelled \<notin> set evs)"
  by (auto simp: save_def Let_def split: option.splits if_splits)

lemma except_clauses_result:
  "except_clauses e s = (out, t) \<Longrightarrow>
     inp t = inp s \<and>
     ((matching_clause e = None \<and> out = Propagated e \<and> t = s) \<or>
      (\<exists>c. matching_clause e = Some c \<and> out = Returned \<and>
         trace t = trace s @ [Print (ErrorLine c), Print (WisdomLine c)]))"
  by (auto simp: except_clauses_def split: option.splits)

lemma matching_clause_None: "matching_clause e = None \<longleftrightarrow> e = KeyboardInterrupt"
  by (cases e) (simp_all add: matching_clause_def)

lemma main_cases:
  assumes "main w = (out, t)"
  obtains
    (eof) "stdin w = []" "out = Propagated EOFError"
      "trace t = [Print Welcome, Print Tagline, Input EnterUrl None]"
  | (no_url) line rest where "stdin w = line # rest" "strip line = []" "out = Returned"
      "trace t = [Print Welcome, Print Tagline, Input EnterUrl (Some line), Print NoUrlProvided]"
  | (finished) line rest s r where "stdin w = line # rest" "strip line \<noteq> []"
      "inp s = rest"
      "trace s = [Print Welcome, Print Tagline, Input EnterUrl (Some line)]"
      "try_body w (strip line) s = (r, t)" "r = Return \<or> r = Value ()" "out = Returned"
  | (raised) line rest s e s' where "stdin w = line # rest" "strip line \<noteq> []"
      "inp s = rest"
      "trace s = [Print Welcome, Print Tagline, Input EnterUrl (Some line)]"
      "try_body w (strip line) s = (Raise e, s')" "except_clauses e s' = (out, t)"
proof (cases "stdin w")
  case Nil
  with assms show ?thesis
    by (intro eof) (auto simp: main_def py_input_def Let_def)
next
  case (Cons line rest)
  show ?thesis
  proof (cases "strip line = []")
    case True
    with assms Cons show ?thesis
      by (intro no_url [of line rest]) (auto simp: main_def py_input_def Let_def)
  next
    case False
    define s where "s = emit (Input EnterUrl (Some line))
      ((py_print Tagline (py_print Welcome \<lparr>inp = stdin w, trace = []\<rparr>))\<lparr>inp := rest\<rparr>)"
    have s: "inp s = rest"
      "trace s = [Print Welcome, Print Tagline, Input EnterUrl (Some line)]"
      by (simp_all add: s_def)
    from assms Cons False
    have m: "(case try_body w (strip line) s of
                (Raise e, s) \<Rightarrow> except_clauses e s
              | (Return, s) \<Rightarrow> (Returned, s)
              | (Value _, s) \<Rightarrow> (Returned, s)) = (out, t)"
      by (simp add: main_def py_input_def Let_def s_def)
    obtain r s' where tb: "try_body w (strip line) s = (r, s')"
      by (cases "try_body w (strip line) s")
    show ?thesis
    proof (cases r)
      case (Value u)
      with m tb Cons False s show ?thesis
        by (intro finished [of line rest s r]) auto
    next
      case Return
      with m tb Cons False s show ?thesis
        by (intro finished [of line rest s r]) auto
    next
      case (Raise e)
      with m tb Cons False s show ?thesis
        by (intro raised [of line rest s e s']) auto
    qed
  qed
qed



lemma unique_name_least:
  "unique_name paths base ext filename filepath counter = (fn, fp) \<Longrightarrow>
   (filepath \<notin> set paths \<and> fn = filename \<and> fp = filepath) \<or>
   (filepath \<in> set paths \<and>
    (\<exists>k\<ge>counter. fn = numbered base ext k \<and> fp = path_join ''Fetched_Images'' (numbered base ext k) \<and>
       fp \<notin> set paths \<and>
       (\<forall>j. counter \<le> j \<and> j < k \<longrightarrow> path_join ''Fetched_Images'' (numbered base ext j) \<in> set paths)))"
proof (induction paths base ext filename filepath counter rule: unique_name.induct)
  case (1 paths base ext filename filepath counter)
  show ?case
  proof (cases "filepath \<in> set paths")
    case False
    then have "unique_name paths base ext filename filepath counter = (filename, filepath)"
      by (simp add: unique_name.simps [of paths base ext filename filepath counter])
    with "1.prems" False show ?thesis by simp
  next
    case True
    then have "unique_name paths base ext filename filepath counter =
        unique_name paths base ext (numbered base ext counter)
          (path_join ''Fetched_Images'' (numbered base ext counter)) (Suc counter)"
      by (simp add: unique_name.simps [of paths base ext filename filepath counter])
    with "1.prems"
    have "unique_name paths base ext (numbered base ext counter)
            (path_join ''Fetched_Images'' (numbered base ext counter)) (Suc counter) = (fn, fp)"
      by simp
    from "1.IH" [OF True this] consider
      (now) "path_join ''Fetched_Images'' (numbered base ext counter) \<notin> set paths"
        "fn = numbered base ext counter" "fp = path_join ''Fetched_Images'' (numbered base ext counter)"
      | (later) k where "path_join ''Fetched_Images'' (numbered base ext counter) \<in> set paths"
        "Suc counter \<le> k" "fn = numbered base ext k"
        "fp = path_join ''Fetched_Images'' (numbered base ext k)" "fp \<notin> set paths"
        "\<forall>j. Suc counter \<le> j \<and> j < k \<longrightarrow> path_join ''Fetched_Images'' (numbered base ext j) \<in> set paths"
      by blast
    then show ?thesis
    proof cases
      case now
      with True show ?thesis by auto
    next
      case later
      have "path_join ''Fetched_Images'' (numbered base ext j) \<in> set paths"
        if "counter \<le> j" "j < k" for j
      proof (cases "j = counter")
        case True
        with later(1) show ?thesis by simp
      next
        case False
        with that have "Suc counter \<le> j" by simp
        with later(6) that(2) show ?thesis by simp
      qed
      with later True show ?thesis
        by (intro disjI2 conjI exI [of _ k]) auto
    qed
  qed
qed



lemma resolve_duplicate_names:
  assumes "resolve_duplicate w filename s = (Value (fn, fp), t)"
    and "\<forall>x. Input Overwrite x \<notin> set (trace s)" "\<forall>q. Open q \<notin> set (trace s)"
  shows "(\<forall>q. Open q \<notin> set (trace t)) \<and>
     ((path_join ''Fetched_Images'' filename \<notin> set (existing w) \<and>
       fn = filename \<and> fp = path_join ''Fetched_Images'' filename \<and> t = s) \<or>
      (path_join ''Fetched_Images'' filename \<in> set (existing w) \<and>
       (\<exists>a. (\<forall>x. Input Overwrite x \<in> set (trace t) \<longleftrightarrow> x = Some a) \<and>
          ((lower a = ''y'' \<and> fn = filename \<and> fp = path_join ''Fetched_Images'' filename \<and>
            trace t = trace s @ [Print (FileExists filename), Input Overwrite (Some a)]) \<or>
           (lower a \<noteq> ''y'' \<and>
            (\<exists>k\<ge>1. fn = numbered (fst (splitext filename)) (snd (splitext filename)) k \<and>
               fp = path_join ''Fetched_Images'' fn \<and> fp \<notin> set (existing w) \<and>
               (\<forall>j. 1 \<le> j \<and> j < k \<longrightarrow>
                  path_join ''Fetched_Images''
                    (numbered (fst (splitext filename)) (snd (splitext filename)) j)
                  \<in> set (existing w))) \<and>
            trace t = trace s @ [Print (FileExists filename),
              Input Overwrite (Some a), Print (SavingAs fn)])))))"
proof -
  from resolve_duplicate_Value [OF assms(1)] consider
    (free) "path_join ''Fetched_Images'' filename \<notin> set (existing w)"
      "fn = filename" "fp = path_join ''Fetched_Images'' filename" "t = s"
    | (yes) a where "path_join ''Fetched_Images'' filename \<in> set (existing w)"
      "lower a = ''y''" "fn = filename" "fp = path_join ''Fetched_Images'' filename"
      "trace t = trace s @ [Print (FileExists filename), Input Overwrite (Some a)]"
    | (no) a where "path_join ''Fetched_Images'' filename \<in> set (existing w)"
      "lower a \<noteq> ''y''"
      "(fn, fp) = unique_name (existing w) (fst (splitext filename)) (snd (splitext filename))
                        filename (path_join ''Fetched_Images'' filename) 1"
      "trace t = trace s @ [Print (FileExists filename),
             Input Overwrite (Some a), Print (SavingAs fn)]"
    by blast
  then show ?thesis
  proof cases
    case free
    with assms(3) show ?thesis by simp
  next
    case yes
    from yes(5) assms(2) have "\<forall>x. Input Overwrite x \<in> set (trace t) \<longleftrightarrow> x = Some a"
      by auto
    moreover from yes(5) assms(3) have "\<forall>q. Open q \<notin> set (trace t)" by simp
    ultimately show ?thesis using yes(1-5) by blast
  next
    case no
    from no(4) assms(2) have only: "\<forall>x. Input Overwrite x \<in> set (trace t) \<longleftrightarrow> x = Some a"
      by auto
    from no(4) assms(3) have closed: "\<forall>q. Open q \<notin> set (trace t)" by simp
    from unique_name_least [OF no(3) [symmetric]] no(1)
    have "\<exists>k\<ge>1. fn = numbered (fst (splitext filename)) (snd (splitext filename)) k \<and>
               fp = path_join ''Fetched_Images'' fn \<and> fp \<notin> set (existing w) \<and>
               (\<forall>j. 1 \<le> j \<and> j < k \<longrightarrow>
                  path_join ''Fetched_Images''
                    (numbered (fst (splitext filename)) (snd (splitext filename)) j)
                  \<in> set (existing w))"
      by auto
    with only closed no(1,2,4) show ?thesis by blast
  qed
qed


lemma try_body_before_resolve:
  assumes "fetch w url s = (Value response, s1)"
    and "check_content_type (content_type_of response) s1 = (Value (), s2)"
    and "\<forall>x. Input Overwrite x \<notin> set (trace s)" "\<forall>q. Open q \<notin> set (trace s)"
  shows "requests_get w url = Inr response \<and>
         (\<forall>x. Input Overwrite x \<notin> set (trace s2)) \<and> (\<forall>q. Open q \<notin> set (trace s2))"
  using fetch_Value [OF assms(1)] check_content_type_Value [OF assms(2)] assms(3,4) by auto

lemma try_body_opened:
  assumes "try_body w url s = (r, t)"
    and "\<forall>x. Input Overwrite x \<notin> set (trace s)" "\<forall>q. Open q \<notin> set (trace s)"
    and "Open fp \<in> set (trace t)"
  shows "\<exists>response. requests_get w url = Inr response \<and>
           (\<forall>q. Open q \<in> set (trace t) \<longrightarrow> q = fp) \<and>
           ((path_join ''Fetched_Images'' (make_filename w url (content_type_of response))
               \<notin> set (existing w) \<and>
             fp = path_join ''Fetched_Images'' (make_filename w url (content_type_of response)) \<and>
             (\<forall>x. Input Overwrite x \<notin> set (trace t))) \<or>
            (path_join ''Fetched_Images'' (make_filename w url (content_type_of response))
               \<in> set (existing w) \<and>
             (\<exists>a. (\<forall>x. Input Overwrite x \<in> set (trace t) \<longleftrightarrow> x = Some a) \<and>
                ((lower a = ''y'' \<and>
                  fp = path_join ''Fetched_Images''
                         (make_filename w url (content_type_of response))) \<or>
                 (lower a \<noteq> ''y'' \<and> fp \<notin> set (existing w) \<and>
                  (\<exists>k\<ge>1. fp = path_join ''Fetched_Images''
                       (numbered (fst (splitext (make_filename w url (content_type_of response))))
                          (snd (splitext (make_filename w url (content_type_of response)))) k) \<and>
                     (\<forall>j. 1 \<le> j \<and> j < k \<longrightarrow>
                        path_join ''Fetched_Images''
                          (numbered (fst (splitext (make_filename w url (content_type_of response))))
                             (snd (splitext (make_filename w url (content_type_of response)))) j)
                        \<in> set (existing w))))))))"
  using assms(1)
proof (cases rule: try_body_cases)
  case (in_fetch x)
  from fetch_stopped [OF this] assms(3,4) show ?thesis by auto
next
  case (in_check response s1 x)
  from fetch_Value [OF in_check(1)] check_content_type_stopped [OF in_check(2,3)] assms(3,4)
  show ?thesis by auto
next
  case (in_resolve response s1 s2 x)
  from try_body_before_resolve [OF in_resolve(1,2) assms(2,3)]
    resolve_duplicate_stopped [OF in_resolve(3,4)] assms(4)
  show ?thesis by auto
next
  case (in_size response s1 s2 filename filepath s3 x)
  note before = try_body_before_resolve [OF in_size(1,2) assms(2,3)]
  from resolve_duplicate_names [OF in_size(3)] before
  have "\<forall>q. Open q \<notin> set (trace s3)" by blast
  with check_size_stopped [OF in_size(4,5)] assms(4) show ?thesis by auto
next
  case (in_save response s1 s2 filename filepath s3 file_size s4)
  let ?name = "make_filename w url (content_type_of response)"
  note before = try_body_before_resolve [OF in_save(1,2) assms(2,3)]
  then have get: "requests_get w url = Inr response"
    and no2: "\<forall>x. Input Overwrite x \<notin> set (trace s2)" "\<forall>q. Open q \<notin> set (trace s2)"
    by simp_all
  note names = resolve_duplicate_names [OF in_save(3) no2]
  then have no3: "\<forall>q. Open q \<notin> set (trace s3)" by blast
  from check_size_Value [OF in_save(4)] no3
  have no4: "\<forall>q. Open q \<notin> set (trace s4)"
    and ow4: "\<forall>x. Input Overwrite x \<in> set (trace s4) \<longleftrightarrow> Input Overwrite x \<in> set (trace s3)"
    by auto
  from save_result [OF in_save(5)] obtain evs where evs: "trace t = trace s4 @ evs"
    "\<forall>q. Open q \<in> set evs \<longrightarrow> q = filepath" "\<forall>p a. Input p a \<notin> set evs"
    by blast
  from evs(1,2) no4 assms(4) have fp: "filepath = fp" by auto
  from evs(1,2) no4 fp have one: "\<forall>q. Open q \<in> set (trace t) \<longrightarrow> q = fp" by auto
  from evs(1,3) ow4
  have ow: "\<forall>x. Input Overwrite x \<in> set (trace t) \<longleftrightarrow> Input Overwrite x \<in> set (trace s3)"
    by auto
  let ?D = "\<lambda>evs p.
     (path_join ''Fetched_Images'' ?name \<notin> set (existing w) \<and>
      p = path_join ''Fetched_Images'' ?name \<and>
      (\<forall>x. Input Overwrite x \<notin> set evs)) \<or>
     (path_join ''Fetched_Images'' ?name \<in> set (existing w) \<and>
      (\<exists>a. (\<forall>x. Input Overwrite x \<in> set evs \<longleftrightarrow> x = Some a) \<and>
         ((lower a = ''y'' \<and> p = path_join ''Fetched_Images'' ?name) \<or>
          (lower a \<noteq> ''y'' \<and> p \<notin> set (existing w) \<and>
           (\<exists>k\<ge>1. p = path_join ''Fetched_Images''
                (numbered (fst (splitext ?name)) (snd (splitext ?name)) k) \<and>
              (\<forall>j. 1 \<le> j \<and> j < k \<longrightarrow>
                 path_join ''Fetched_Images''
                   (numbered (fst (splitext ?name)) (snd (splitext ?name)) j)
                 \<in> set (existing w)))))))"
  from names no2(1) have "?D (trace s3) filepath" by blast
  then have "?D (trace t) fp" by (simp only: ow fp)
  with get one show ?thesis by (intro exI [of _ response] conjI)
qed



lemma check_content_type_extends:
  "check_content_type ct s = (x, t) \<Longrightarrow> prefix (trace s) (trace t)"
  by (auto simp: check_content_type_def bnd_def py_input_def split: list.splits if_splits)

lemma resolve_duplicate_extends:
  "resolve_duplicate w filename s = (x, t) \<Longrightarrow> prefix (trace s) (trace t)"
  by (auto simp: resolve_duplicate_def bnd_def py_input_def Let_def
      split: list.splits if_splits prod.splits)

lemma check_size_extends:
  "check_size response s = (x, t) \<Longrightarrow> prefix (trace s) (trace t)"
  by (auto simp: check_size_def bnd_def py_input_def split: option.splits list.splits if_splits)

lemma save_extends:
  "save w response filename filepath file_size s = (x, t) \<Longrightarrow> prefix (trace s) (trace t)"
  by (auto simp: save_def Let_def split: option.splits if_splits)

lemma except_clauses_extends:
  "except_clauses e s = (out, t) \<Longrightarrow> prefix (trace s) (trace t)"
  by (auto simp: except_clauses_def split: option.splits)

lemma try_body_not_image:
  assumes "try_body w url s = (r, t)"
    and "makedirs w = None" "requests_get w url = Inr response" "raise_for_status response = None"
    and "\<not> prefix ''image/'' (content_type_of response)"
  shows "\<exists>ans. prefix (trace s @ [MakeDirs ''Fetched_Images'', Print Connecting, Get url,
           Print (ContentTypeWarning (content_type_of response)), Input ContinueAnyway ans])
           (trace t)"
proof -
  let ?asked = "\<lambda>ans. trace s @ [MakeDirs ''Fetched_Images'', Print Connecting, Get url,
           Print (ContentTypeWarning (content_type_of response)), Input ContinueAnyway ans]"
  have accepted: "\<exists>a. trace s2 = ?asked (Some a)"
    if "fetch w url s = (Value response', s1)"
      "check_content_type (content_type_of response') s1 = (Value (), s2)" for response' s1 s2
  proof -
    from fetch_Value [OF that(1)] assms(3) have "response' = response"
      and "trace s1 = trace s @ [MakeDirs ''Fetched_Images'', Print Connecting, Get url]"
      by simp_all
    with check_content_type_Value [OF that(2)] assms(5) show ?thesis by auto
  qed
  from assms(1) show ?thesis
  proof (cases rule: try_body_cases)
    case (in_fetch x)
    from fetch_stopped [OF this] assms(2-4) show ?thesis by auto
  next
    case (in_check response' s1 x)
    from fetch_Value [OF in_check(1)] assms(3) have "response' = response"
      and "trace s1 = trace s @ [MakeDirs ''Fetched_Images'', Print Connecting, Get url]"
      by simp_all
    with check_content_type_stopped [OF in_check(2,3)] show ?thesis by auto
  next
    case (in_resolve response' s1 s2 x)
    from accepted [OF in_resolve(1,2)] obtain a where "trace s2 = ?asked (Some a)" ..
    with resolve_duplicate_extends [OF in_resolve(3)]
    have "prefix (?asked (Some a)) (trace t)" by simp
    then show ?thesis ..
  next
    case (in_size response' s1 s2 filename filepath s3 x)
    from accepted [OF in_size(1,2)] obtain a where "trace s2 = ?asked (Some a)" ..
    with resolve_duplicate_extends [OF in_size(3)]
    have "prefix (?asked (Some a)) (trace s3)" by simp
    with check_size_extends [OF in_size(4)]
    have "prefix (?asked (Some a)) (trace t)" by (rule prefix_order.trans [rotated])
    then show ?thesis ..
  next
    case (in_save response' s1 s2 filename filepath s3 file_size s4)
    from accepted [OF in_save(1,2)] obtain a where "trace s2 = ?asked (Some a)" ..
    with resolve_duplicate_extends [OF in_save(3)]
    have "prefix (?asked (Some a)) (trace s3)" by simp
    with check_size_extends [OF in_save(4)]
    have "prefix (?asked (Some a)) (trace s4)" by (rule prefix_order.trans [rotated])
    with save_extends [OF in_save(5)]
    have "prefix (?asked (Some a)) (trace t)" by (rule prefix_order.trans [rotated])
    then show ?thesis ..
  qed
qed


lemma try_body_bad_size:
  assumes "try_body w url s = (r, t)"
    and "requests_get w url = Inr response" "declared_size response = None"
    and "no_file (trace s)"
  shows "no_file (trace t) \<and> r \<noteq> Value () \<and>
         (makedirs w = None \<and> raise_for_status response = None \<and>
          Print OperationCancelled \<notin> set (trace t) \<longrightarrow>
            r = Raise EOFError \<or> r = Raise ValueError)"
proof -
  have before: "response' = response \<and> no_file (trace s1)"
    if "fetch w url s = (Value response', s1)" for response' s1
    using fetch_Value [OF that] assms(2,4) by (simp add: no_file_def)
  have checked: "no_file (trace s2)"
    if "fetch w url s = (Value response', s1)"
      "check_content_type (content_type_of response') s1 = (Value (), s2)" for response' s1 s2
    using before [OF that(1)] check_content_type_Value [OF that(2)]
    by (auto simp: no_file_def)
  from assms(1) show ?thesis
  proof (cases rule: try_body_cases)
    case (in_fetch x)
    from fetch_stopped [OF this] assms(2-4) show ?thesis
      by (auto simp: stopped_def no_file_def)
  next
    case (in_check response' s1 x)
    from before [OF in_check(1)] check_content_type_stopped [OF in_check(2,3)]
    show ?thesis by (auto simp: no_file_def)
  next
    case (in_resolve response' s1 s2 x)
    from checked [OF in_resolve(1,2)] resolve_duplicate_stopped [OF in_resolve(3,4)]
    show ?thesis by (auto simp: no_file_def)
  next
    case (in_size response' s1 s2 filename filepath s3 x)
    have "no_file (trace s3)"
      using checked [OF in_size(1,2)] resolve_duplicate_Value [OF in_size(3)]
      by (auto simp: no_file_def)
    moreover have "response' = response"
      using before [OF in_size(1)] by simp
    ultimately show ?thesis
      using check_size_stopped [OF in_size(4,5)] assms(3) by (auto simp: no_file_def)
  next
    case (in_save response' s1 s2 filename filepath s3 file_size s4)
    have "response' = response"
      using before [OF in_save(1)] by simp
    with check_size_Value [OF in_save(4)] assms(3) show ?thesis by simp
  qed
qed

subsection \<open>Claims about main\<close>

lemma main_result:
  obtains out t where "main w = (out, t)" "fst (main w) = out" "snd (main w) = t"
  by (cases "main w") simp

lemma main_after_url:
  "stdin w = line # rest \<Longrightarrow> strip line \<noteq> [] \<Longrightarrow>
   main w =
     (case try_body w (strip line)
             \<lparr>inp = rest, trace = [Print Welcome, Print Tagline, Input EnterUrl (Some line)]\<rparr> of
        (Raise e, s) \<Rightarrow> except_clauses e s
      | (Return, s) \<Rightarrow> (Returned, s)
      | (Value u, s) \<Rightarrow> (Returned, s))"
  by (simp add: main_def py_input_def Let_def emit_def py_print_def)

lemma main_raised:
  assumes "stdin w = line # rest" "strip line \<noteq> []"
    and "try_body w (strip line)
           \<lparr>inp = rest, trace = [Print Welcome, Print Tagline, Input EnterUrl (Some line)]\<rparr>
         = (Raise e, s')"
  shows "(e = KeyboardInterrupt \<longrightarrow> main w = (Propagated KeyboardInterrupt, s')) \<and>
         (e \<noteq> KeyboardInterrupt \<longrightarrow>
            fst (main w) = Returned \<and>
            (\<exists>c. matching_clause e = Some c \<and>
               trace (snd (main w)) = trace s' @ [Print (ErrorLine c), Print (WisdomLine c)]))"
proof -
  from main_after_url [OF assms(1,2)] assms(3) have m: "main w = except_clauses e s'" by simp
  show ?thesis
  proof (cases "matching_clause e")
    case None
    then have "e = KeyboardInterrupt" by (simp add: matching_clause_None)
    with m None show ?thesis by (simp add: except_clauses_def)
  next
    case (Some c)
    then have "e \<noteq> KeyboardInterrupt" using matching_clause_None [of e] by auto
    with m Some show ?thesis by (simp add: except_clauses_def)
  qed
qed

lemma fetch_raises:
  "makedirs w = Some e \<Longrightarrow> try_body w url s = (Raise e, s)"
  "makedirs w = None \<Longrightarrow> requests_get w url = Inl e \<Longrightarrow>
     try_body w url s =
       (Raise e, s\<lparr>trace := trace s @ [MakeDirs ''Fetched_Images'', Print Connecting, Get url]\<rparr>)"
  "makedirs w = None \<Longrightarrow> requests_get w url = Inr response \<Longrightarrow>
   raise_for_status response = Some e \<Longrightarrow>
     try_body w url s =
       (Raise e, s\<lparr>trace := trace s @ [MakeDirs ''Fetched_Images'', Print Connecting, Get url]\<rparr>)"
  by (simp_all add: try_body_def bnd_def fetch_def Let_def emit_def py_print_def)

lemma try_body_eof:
  assumes "try_body w url s = (r, t)"
    and "\<forall>p. Input p None \<notin> set (trace s)"
    and "Input p None \<in> set (trace t)"
  shows "r = Raise EOFError \<and> (\<exists>before. trace t = before @ [Input p None])"
proof -
  have checked: "\<forall>p. Input p None \<notin> set (trace s2)"
    if "fetch w url s = (Value response, s1)"
      "check_content_type (content_type_of response) s1 = (Value (), s2)" for response s1 s2
    using fetch_Value [OF that(1)] check_content_type_Value [OF that(2)] assms(2) by auto
  have resolved: "\<forall>p. Input p None \<notin> set (trace s3)"
    if "fetch w url s = (Value response, s1)"
      "check_content_type (content_type_of response) s1 = (Value (), s2)"
      "resolve_duplicate w filename s2 = (Value (fn, fp), s3)" for response s1 s2 filename fn fp s3
    using checked [OF that(1,2)] resolve_duplicate_Value [OF that(3)] by auto
  from assms(1) show ?thesis
  proof (cases rule: try_body_cases)
    case (in_fetch x)
    from fetch_stopped [OF this] assms(2,3) show ?thesis by auto
  next
    case (in_check response s1 x)
    from fetch_Value [OF in_check(1)] check_content_type_stopped [OF in_check(2,3)] assms(2,3)
    show ?thesis by auto
  next
    case (in_resolve response s1 s2 x)
    from checked [OF in_resolve(1,2)] resolve_duplicate_stopped [OF in_resolve(3,4)] assms(3)
    show ?thesis by auto
  next
    case (in_size response s1 s2 filename filepath s3 x)
    from resolved [OF in_size(1,2,3)] check_size_stopped [OF in_size(4,5)] assms(3)
    show ?thesis by auto
  next
    case (in_save response s1 s2 filename filepath s3 file_size s4)
    have "\<forall>p. Input p None \<notin> set (trace s4)"
      using resolved [OF in_save(1,2,3)] check_size_Value [OF in_save(4)] by auto
    with save_result [OF in_save(5)] assms(3) show ?thesis by auto
  qed
qed

lemma main_eof:
  assumes "stdin w = line # rest" "Input p None \<in> set (trace (snd (main w)))"
  shows "fst (main w) = Returned \<and>
         (\<exists>before. trace (snd (main w)) =
            before @ [Input p None, Print (ErrorLine ExceptException),
              Print (WisdomLine ExceptException)])"
proof -
  obtain out t where m: "main w = (out, t)" and out: "fst (main w) = out"
    and t: "snd (main w) = t"
    by (rule main_result)
  from assms(2) t have asked: "Input p None \<in> set (trace t)" by simp
  from m have "out = Returned \<and>
         (\<exists>before. trace t =
            before @ [Input p None, Print (ErrorLine ExceptException),
              Print (WisdomLine ExceptException)])"
  proof (cases rule: main_cases)
    case eof
    with assms(1) show ?thesis by simp
  next
    case (no_url line' rest')
    with asked show ?thesis by auto
  next
    case (finished line' rest' s r)
    from finished(4) have "\<forall>p. Input p None \<notin> set (trace s)" by simp
    from try_body_eof [OF finished(5) this asked] finished(6) show ?thesis by auto
  next
    case (raised line' rest' s e s')
    from raised(4) have no: "\<forall>p. Input p None \<notin> set (trace s)" by simp
    note ex = except_clauses_result [OF raised(6)]
    from ex asked have "Input p None \<in> set (trace s')" by auto
    from try_body_eof [OF raised(5) no this] obtain before where
      e: "e = EOFError" and b: "trace s' = before @ [Input p None]" by auto
    from e have "matching_clause e = Some ExceptException" by (simp add: matching_clause_def)
    with ex b show ?thesis by auto
  qed
  with out t show ?thesis by simp
qed


text \<open>
  Claim C2 says that no exception leaves \<^verbatim>\<open>main\<close>, also not one raised while the URL
  is read. The \<^verbatim>\<open>input\<close> call of line 16 stands before the \<^verbatim>\<open>try\<close> statement: at
  end of input its \<^verbatim>\<open>EOFError\<close> leaves \<^verbatim>\<open>main\<close>.
\<close>

theorem url_read_eof_propagates:
  "stdin no_input_world = [] \<and> fst (main no_input_world) = Propagated EOFError"
  by code_simp

text \<open>
  Claim C2, amended. Taking it that \<^verbatim>\<open>print\<close> itself does not fail (the \<^verbatim>\<open>print\<close>
  calls of lines 12, 13 and 19 and those of the \<^verbatim>\<open>except\<close> clauses stand outside the
  \<^verbatim>\<open>try\<close> block): once the URL has been read, \<^verbatim>\<open>main\<close> returns or
  \<^verbatim>\<open>KeyboardInterrupt\<close> leaves it. Whenever the body of the \<^verbatim>\<open>try\<close> statement raises
  an exception other than \<^verbatim>\<open>KeyboardInterrupt\<close> (from the network, the status check, the
  filesystem, the integer conversion, the division of line 74 or \<^verbatim>\<open>input\<close> at a
  confirmation), \<^verbatim>\<open>main\<close> returns and the run ends with the two lines of the first
  clause that matches the exception, printed right after what the body did; a
  \<^verbatim>\<open>KeyboardInterrupt\<close> leaves \<^verbatim>\<open>main\<close> with nothing printed after it. In particular
  a failure of \<^verbatim>\<open>os.makedirs\<close>, of \<^verbatim>\<open>requests.get\<close> or of \<^verbatim>\<open>raise_for_status\<close> is
  reported in this way, an end of input at a confirmation prompt is reported by
  \<^verbatim>\<open>except Exception\<close> right after the prompt, and each exception has the clause
  listed.
\<close>

theorem main_catches_after_url:
  assumes "stdin w = line # rest"
  shows "(fst (main w) = Returned \<or> fst (main w) = Propagated KeyboardInterrupt) \<and>
         (\<forall>e s'. strip line \<noteq> [] \<and>
              try_body w (strip line)
                \<lparr>inp = rest, trace = [Print Welcome, Print Tagline, Input EnterUrl (Some line)]\<rparr>
              = (Raise e, s') \<longrightarrow>
            (e = KeyboardInterrupt \<longrightarrow> main w = (Propagated KeyboardInterrupt, s')) \<and>
            (e \<noteq> KeyboardInterrupt \<longrightarrow>
               fst (main w) = Returned \<and>
               (\<exists>c. matching_clause e = Some c \<and>
                  trace (snd (main w)) =
                    trace s' @ [Print (ErrorLine c), Print (WisdomLine c)]))) \<and>
         (\<forall>e. strip line \<noteq> [] \<and> e \<noteq> KeyboardInterrupt \<and> makedirs w = Some e \<longrightarrow>
            fst (main w) = Returned \<and>
            (\<exists>c. matching_clause e = Some c \<and>
               trace (snd (main w)) =
                 [Print Welcome, Print Tagline, Input EnterUrl (Some line),
                  Print (ErrorLine c), Print (WisdomLine c)])) \<and>
         (\<forall>e. strip line \<noteq> [] \<and> e \<noteq> KeyboardInterrupt \<and> makedirs w = None \<and>
              (requests_get w (strip line) = Inl e \<or>
               (\<exists>response. requests_get w (strip line) = Inr response \<and>
                  raise_for_status response = Some e)) \<longrightarrow>
            fst (main w) = Returned \<and>
            (\<exists>c. matching_clause e = Some c \<and>
               trace (snd (main w)) =
                 [Print Welcome, Print Tagline, Input EnterUrl (Some line),
                  MakeDirs ''Fetched_Images'', Print Connecting, Get (strip line),
                  Print (ErrorLine c), Print (WisdomLine c)])) \<and>
         (\<forall>p. Input p None \<in> set (trace (snd (main w))) \<longrightarrow>
            fst (main w) = Returned \<and>
            (\<exists>before. trace (snd (main w)) =
               before @ [Input p None, Print (ErrorLine ExceptException),
                 Print (WisdomLine ExceptException)])) \<and>
         matching_clause ConnectionError = Some ExceptConnectionError \<and>
         matching_clause Timeout = Some ExceptTimeout \<and>
         matching_clause HTTPError = Some ExceptHTTPError \<and>
         matching_clause RequestException = Some ExceptRequestException \<and>
         matching_clause PermissionError = Some ExceptPermissionError \<and>
         matching_clause EOFError = Some ExceptException \<and>
         matching_clause ValueError = Some ExceptException \<and>
         matching_clause OverflowError = Some ExceptException \<and>
         matching_clause OSError = Some ExceptException"
proof -
  let ?s = "\<lparr>inp = rest, trace = [Print Welcome, Print Tagline, Input EnterUrl (Some line)]\<rparr>"
  obtain out t where m: "main w = (out, t)" and out: "fst (main w) = out"
    by (rule main_result)
  from m have "out = Returned \<or> out = Propagated KeyboardInterrupt"
  proof (cases rule: main_cases)
    case eof
    with assms show ?thesis by simp
  next
    case (no_url line rest)
    then show ?thesis by simp
  next
    case (finished line rest s r)
    then show ?thesis by simp
  next
    case (raised line rest s e s')
    from except_clauses_result [OF raised(6)] show ?thesis
      by (auto simp: matching_clause_None)
  qed
  with out have ends: "fst (main w) = Returned \<or> fst (main w) = Propagated KeyboardInterrupt"
    by simp
  have caught: "fst (main w) = Returned \<and>
            (\<exists>c. matching_clause e = Some c \<and>
               trace (snd (main w)) = trace ?s @ evs @ [Print (ErrorLine c), Print (WisdomLine c)])"
    if "strip line \<noteq> []" "e \<noteq> KeyboardInterrupt"
      "try_body w (strip line) ?s = (Raise e, ?s\<lparr>trace := trace ?s @ evs\<rparr>)" for e evs
    using main_raised [OF assms that(1,3)] that(2) by simp
  have dir: "fst (main w) = Returned \<and>
            (\<exists>c. matching_clause e = Some c \<and>
               trace (snd (main w)) =
                 [Print Welcome, Print Tagline, Input EnterUrl (Some line),
                  Print (ErrorLine c), Print (WisdomLine c)])"
    if "strip line \<noteq> []" "e \<noteq> KeyboardInterrupt" "makedirs w = Some e" for e
    using caught [OF that(1,2), of "[]"] fetch_raises(1) [OF that(3), where url = "strip line" and s = ?s] by simp
  have net: "fst (main w) = Returned \<and>
            (\<exists>c. matching_clause e = Some c \<and>
               trace (snd (main w)) =
                 [Print Welcome, Print Tagline, Input EnterUrl (Some line),
                  MakeDirs ''Fetched_Images'', Print Connecting, Get (strip line),
                  Print (ErrorLine c), Print (WisdomLine c)])"
    if "strip line \<noteq> []" "e \<noteq> KeyboardInterrupt" "makedirs w = None"
      "requests_get w (strip line) = Inl e \<or>
       (\<exists>response. requests_get w (strip line) = Inr response \<and> raise_for_status response = Some e)"
    for e
  proof -
    from that(3,4) have "try_body w (strip line) ?s =
       (Raise e, ?s\<lparr>trace := trace ?s @
          [MakeDirs ''Fetched_Images'', Print Connecting, Get (strip line)]\<rparr>)"
      using fetch_raises(2,3) [where w = w and url = "strip line" and s = ?s]
      by (elim disjE exE conjE) simp_all
    from caught [OF that(1,2) this] show ?thesis by simp
  qed
  have table: "matching_clause ConnectionError = Some ExceptConnectionError \<and>
         matching_clause Timeout = Some ExceptTimeout \<and>
         matching_clause HTTPError = Some ExceptHTTPError \<and>
         matching_clause RequestException = Some ExceptRequestException \<and>
         matching_clause PermissionError = Some ExceptPermissionError \<and>
         matching_clause EOFError = Some ExceptException \<and>
         matching_clause ValueError = Some ExceptException \<and>
         matching_clause OverflowError = Some ExceptException \<and>
         matching_clause OSError = Some ExceptException"
    by (simp add: matching_clause_def)
  from ends main_raised [OF assms] dir net main_eof [OF assms] table show ?thesis by blast
qed

lemma not_found_run:
  "stdin not_found_world = [''https://example.com/cat.png''] \<and>
   stdin offline_world = [''https://example.com/cat.png''] \<and>
   strip ''https://example.com/cat.png'' = ''https://example.com/cat.png'' \<and>
   makedirs not_found_world = None \<and>
   requests_get not_found_world ''https://example.com/cat.png'' = Inr not_found_response \<and>
   raise_for_status not_found_response = Some HTTPError \<and>
   fst (main not_found_world) = Returned \<and>
   trace (snd (main not_found_world)) =
     [Print Welcome, Print Tagline, Input EnterUrl (Some ''https://example.com/cat.png''),
      MakeDirs ''Fetched_Images'', Print Connecting, Get ''https://example.com/cat.png'',
      Print (ErrorLine ExceptHTTPError), Print (WisdomLine ExceptHTTPError)] \<and>
   makedirs offline_world = None \<and>
   requests_get offline_world ''https://example.com/cat.png'' = Inl ConnectionError \<and>
   fst (main offline_world) = Returned \<and>
   trace (snd (main offline_world)) =
     [Print Welcome, Print Tagline, Input EnterUrl (Some ''https://example.com/cat.png''),
      MakeDirs ''Fetched_Images'', Print Connecting, Get ''https://example.com/cat.png'',
      Print (ErrorLine ExceptConnectionError), Print (WisdomLine ExceptConnectionError)] \<and>
   stdin silent_world = [''https://example.com/page.html''] \<and>
   Input ContinueAnyway None \<in> set (trace (snd (main silent_world))) \<and>
   fst (main silent_world) = Returned \<and>
   trace (snd (main silent_world)) =
     [Print Welcome, Print Tagline, Input EnterUrl (Some ''https://example.com/page.html''),
      MakeDirs ''Fetched_Images'', Print Connecting, Get ''https://example.com/page.html'',
      Print (ContentTypeWarning ''text/html''), Input ContinueAnyway None,
      Print (ErrorLine ExceptException), Print (WisdomLine ExceptException)]"
  by code_simp

theorem main_catches_after_url_witness:
  "stdin not_found_world = [''https://example.com/cat.png''] \<and>
   raise_for_status not_found_response = Some HTTPError \<and>
   fst (main not_found_world) = Returned \<and>
   trace (snd (main not_found_world)) =
     [Print Welcome, Print Tagline, Input EnterUrl (Some ''https://example.com/cat.png''),
      MakeDirs ''Fetched_Images'', Print Connecting, Get ''https://example.com/cat.png'',
      Print (ErrorLine ExceptHTTPError), Print (WisdomLine ExceptHTTPError)] \<and>
   stdin offline_world = [''https://example.com/cat.png''] \<and>
   requests_get offline_world ''https://example.com/cat.png'' = Inl ConnectionError \<and>
   fst (main offline_world) = Returned \<and>
   trace (snd (main offline_world)) =
     [Print Welcome, Print Tagline, Input EnterUrl (Some ''https://example.com/cat.png''),
      MakeDirs ''Fetched_Images'', Print Connecting, Get ''https://example.com/cat.png'',
      Print (ErrorLine ExceptConnectionError), Print (WisdomLine ExceptConnectionError)] \<and>
   stdin silent_world = [''https://example.com/page.html''] \<and>
   Input ContinueAnyway None \<in> set (trace (snd (main silent_world))) \<and>
   fst (main silent_world) = Returned \<and>
   trace (snd (main silent_world)) =
     [Print Welcome, Print Tagline, Input EnterUrl (Some ''https://example.com/page.html''),
      MakeDirs ''Fetched_Images'', Print Connecting, Get ''https://example.com/page.html'',
      Print (ContentTypeWarning ''text/html''), Input ContinueAnyway None,
      Print (ErrorLine ExceptException), Print (WisdomLine ExceptException)]"
  using main_catches_after_url [where w = not_found_world
      and line = "''https://example.com/cat.png''" and rest = "[]"]
    main_catches_after_url [where w = offline_world
      and line = "''https://example.com/cat.png''" and rest = "[]"]
    main_catches_after_url [where w = silent_world
      and line = "''https://example.com/page.html''" and rest = "[]"]
  by (simp add: not_found_run)









text \<open>
  Claim C4 says that the path opened for writing never exists at that moment, also when
  the user accepted the overwrite prompt. After \<^verbatim>\<open>y\<close> the existing path itself is
  opened.
\<close>

theorem accepted_overwrite_opens_existing:
  "Open ''Fetched_Images/cat.png'' \<in> set (trace (snd (main overwrite_world))) \<and>
   ''Fetched_Images/cat.png'' \<in> set (existing overwrite_world)"
  by code_simp

text \<open>
  Claim C4, amended. In every run that opens the output file, that file is the only
  one opened and, with \<open>filename\<close> the name of line 54: either its path does not exist,
  no overwrite prompt is shown and that path is opened; or its path exists and the
  overwrite prompt is answered once: after \<^verbatim>\<open>y\<close> (in either case) the existing path
  itself is opened, after any other answer the path opened is that of
  \<^verbatim>\<open><base>_<k><ext>\<close> for the least \<open>k \<ge> 1\<close> whose path does not exist among the
  paths of the run.
\<close>

theorem opened_path_free_or_overwrite_accepted:
  assumes "Open fp \<in> set (trace (snd (main w)))"
  shows "\<exists>line rest response.
           stdin w = line # rest \<and> requests_get w (strip line) = Inr response \<and>
           (\<forall>q. Open q \<in> set (trace (snd (main w))) \<longrightarrow> q = fp) \<and>
           (let filename = make_filename w (strip line) (content_type_of response);
                filepath = path_join ''Fetched_Images'' filename;
                base = fst (splitext filename);
                ext = snd (splitext filename)
            in (filepath \<notin> set (existing w) \<and> fp = filepath \<and>
                (\<forall>x. Input Overwrite x \<notin> set (trace (snd (main w))))) \<or>
               (filepath \<in> set (existing w) \<and>
                (\<exists>a. (\<forall>x. Input Overwrite x \<in> set (trace (snd (main w))) \<longleftrightarrow> x = Some a) \<and>
                   ((lower a = ''y'' \<and> fp = filepath) \<or>
                    (lower a \<noteq> ''y'' \<and> fp \<notin> set (existing w) \<and>
                     (\<exists>k\<ge>1. fp = path_join ''Fetched_Images'' (numbered base ext k) \<and>
                        (\<forall>j. 1 \<le> j \<and> j < k \<longrightarrow>
                           path_join ''Fetched_Images'' (numbered base ext j)
                           \<in> set (existing w))))))))"
proof -
  obtain out t where m: "main w = (out, t)" and t: "snd (main w) = t"
    by (rule main_result)
  let ?B = "\<lambda>line response evs.
           requests_get w (strip line) = Inr response \<and>
           (\<forall>q. Open q \<in> set evs \<longrightarrow> q = fp) \<and>
           ((path_join ''Fetched_Images'' (make_filename w (strip line) (content_type_of response))
               \<notin> set (existing w) \<and>
             fp = path_join ''Fetched_Images'' (make_filename w (strip line) (content_type_of response)) \<and>
             (\<forall>x. Input Overwrite x \<notin> set evs)) \<or>
            (path_join ''Fetched_Images'' (make_filename w (strip line) (content_type_of response))
               \<in> set (existing w) \<and>
             (\<exists>a. (\<forall>x. Input Overwrite x \<in> set evs \<longleftrightarrow> x = Some a) \<and>
                ((lower a = ''y'' \<and>
                  fp = path_join ''Fetched_Images''
                         (make_filename w (strip line) (content_type_of response))) \<or>
                 (lower a \<noteq> ''y'' \<and> fp \<notin> set (existing w) \<and>
                  (\<exists>k\<ge>1. fp = path_join ''Fetched_Images''
                       (numbered (fst (splitext (make_filename w (strip line) (content_type_of response))))
                          (snd (splitext (make_filename w (strip line) (content_type_of response)))) k) \<and>
                     (\<forall>j. 1 \<le> j \<and> j < k \<longrightarrow>
                        path_join ''Fetched_Images''
                          (numbered (fst (splitext (make_filename w (strip line) (content_type_of response))))
                             (snd (splitext (make_filename w (strip line) (content_type_of response)))) j)
                        \<in> set (existing w))))))))"
  from assms t have op: "Open fp \<in> set (trace t)" by simp
  from m have "\<exists>line rest response. stdin w = line # rest \<and> ?B line response (trace t)"
  proof (cases rule: main_cases)
    case eof
    with op show ?thesis by auto
  next
    case (no_url line rest)
    with op show ?thesis by auto
  next
    case (finished line rest s r)
    from finished(4) have no: "\<forall>x. Input Overwrite x \<notin> set (trace s)" "\<forall>q. Open q \<notin> set (trace s)"
      by simp_all
    from try_body_opened [OF finished(5) no op] obtain response
      where "?B line response (trace t)" ..
    with finished(1) have "stdin w = line # rest \<and> ?B line response (trace t)" by (rule conjI)
    then show ?thesis by (intro exI)
  next
    case (raised line rest s e s')
    from raised(4) have no: "\<forall>x. Input Overwrite x \<notin> set (trace s)" "\<forall>q. Open q \<notin> set (trace s)"
      by simp_all
    from except_clauses_result [OF raised(6)]
    have same: "\<And>x. Input Overwrite x \<in> set (trace t) \<longleftrightarrow> Input Overwrite x \<in> set (trace s')"
      "\<And>q. Open q \<in> set (trace t) \<longleftrightarrow> Open q \<in> set (trace s')"
      by auto
    from op have "Open fp \<in> set (trace s')" by (simp only: same)
    from try_body_opened [OF raised(5) no this] obtain response
      where "?B line response (trace s')" ..
    then have "?B line response (trace t)" unfolding same .
    with raised(1) have "stdin w = line # rest \<and> ?B line response (trace t)" by (rule conjI)
    then show ?thesis by (intro exI)
  qed
  with t show ?thesis by (simp only: Let_def)
qed


lemma keep_run:
  "Open ''Fetched_Images/cat_1.png'' \<in> set (trace (snd (main keep_world))) \<and>
   ''Fetched_Images/cat_1.png'' \<notin> set (existing keep_world) \<and>
   Open ''Fetched_Images/cat_2.png'' \<in> set (trace (snd (main twice_world))) \<and>
   ''Fetched_Images/cat_2.png'' \<notin> set (existing twice_world) \<and>
   ''Fetched_Images/cat_1.png'' \<in> set (existing twice_world) \<and>
   make_filename twice_world ''https://example.com/cat.png'' (content_type_of cat_response) = ''cat.png'' \<and>
   splitext ''cat.png'' = (''cat'', ''.png'') \<and>
   path_join ''Fetched_Images'' (numbered ''cat'' ''.png'' 1) = ''Fetched_Images/cat_1.png'' \<and>
   path_join ''Fetched_Images'' (numbered ''cat'' ''.png'' 2) = ''Fetched_Images/cat_2.png''"
  by code_simp

theorem opened_path_free_or_overwrite_accepted_witness:
  "Open ''Fetched_Images/cat_1.png'' \<in> set (trace (snd (main keep_world))) \<and>
   ''Fetched_Images/cat_1.png'' \<notin> set (existing keep_world) \<and>
   Open ''Fetched_Images/cat_2.png'' \<in> set (trace (snd (main twice_world))) \<and>
   ''Fetched_Images/cat_2.png'' \<notin> set (existing twice_world) \<and>
   ''Fetched_Images/cat_1.png'' \<in> set (existing twice_world) \<and>
   make_filename twice_world ''https://example.com/cat.png'' (content_type_of cat_response) = ''cat.png'' \<and>
   splitext ''cat.png'' = (''cat'', ''.png'') \<and>
   path_join ''Fetched_Images'' (numbered ''cat'' ''.png'' 1) = ''Fetched_Images/cat_1.png'' \<and>
   path_join ''Fetched_Images'' (numbered ''cat'' ''.png'' 2) = ''Fetched_Images/cat_2.png''"
  using opened_path_free_or_overwrite_accepted [of "''Fetched_Images/cat_1.png''" keep_world]
    opened_path_free_or_overwrite_accepted [of "''Fetched_Images/cat_2.png''" twice_world]
  by - (rule keep_run)

lemma declared_size_malformed:
  "header_get response ''content-length'' = Some v \<Longrightarrow> py_int v = None \<Longrightarrow>
   declared_size response = None"
  by (simp add: declared_size_def)

text \<open>
  Claim C9. When the response carries a \<^verbatim>\<open>content-length\<close> header that \<^verbatim>\<open>int\<close> does
  not accept, the conversion of line 72 raises \<^verbatim>\<open>ValueError\<close> before anything else
  happens there, \<^verbatim>\<open>except Exception\<close> is the clause that matches it, and no run with
  such a response opens or writes a file. A run that gets this response with a good status and is
  not cancelled at the content-type prompt ends in that clause: \<^verbatim>\<open>main\<close> returns and
  the two lines of \<^verbatim>\<open>except Exception\<close> are the last events.
\<close>

theorem malformed_content_length:
  assumes "stdin w = line # rest" "requests_get w (strip line) = Inr response"
    and "header_get response ''content-length'' = Some v" "py_int v = None"
  shows "check_size response s = (Raise ValueError, s) \<and>
         matching_clause ValueError = Some ExceptException \<and>
         no_file (trace (snd (main w))) \<and>
         (strip line \<noteq> [] \<and> makedirs w = None \<and> raise_for_status response = None \<and>
          Print OperationCancelled \<notin> set (trace (snd (main w))) \<longrightarrow>
            fst (main w) = Returned \<and>
            (\<exists>before. trace (snd (main w)) =
               before @ [Print (ErrorLine ExceptException), Print (WisdomLine ExceptException)]))"
proof -
  note bad = declared_size_malformed [OF assms(3,4)]
  obtain out t where m: "main w = (out, t)" and out: "fst (main w) = out"
    and t: "snd (main w) = t"
    by (rule main_result)
  have raises: "check_size response s = (Raise ValueError, s)"
    by (simp add: check_size_def bad)
  have generic: "matching_clause ValueError = Some ExceptException"
    "matching_clause EOFError = Some ExceptException"
    by (simp_all add: matching_clause_def)
  from m have "no_file (trace t) \<and>
         (strip line \<noteq> [] \<and> makedirs w = None \<and> raise_for_status response = None \<and>
          Print OperationCancelled \<notin> set (trace t) \<longrightarrow>
            out = Returned \<and>
            (\<exists>before. trace t =
               before @ [Print (ErrorLine ExceptException), Print (WisdomLine ExceptException)]))"
  proof (cases rule: main_cases)
    case eof
    with assms(1) show ?thesis by simp
  next
    case (no_url line' rest')
    with assms(1) show ?thesis by (simp add: no_file_def)
  next
    case (finished line' rest' s0 r)
    with assms(1) have line: "line' = line" by simp
    from finished(4) have "no_file (trace s0)" by (simp add: no_file_def)
    from try_body_bad_size [OF finished(5) assms(2) [folded line] bad this] finished(6)
    show ?thesis by auto
  next
    case (raised line' rest' s0 e s')
    with assms(1) have line: "line' = line" by simp
    from raised(4) have "no_file (trace s0)" by (simp add: no_file_def)
    note tb = try_body_bad_size [OF raised(5) assms(2) [folded line] bad this]
    note ex = except_clauses_result [OF raised(6)]
    from tb ex have no_open: "no_file (trace t)" by (auto simp: no_file_def)
    have "out = Returned \<and> (\<exists>before. trace t =
               before @ [Print (ErrorLine ExceptException), Print (WisdomLine ExceptException)])"
      if "makedirs w = None" "raise_for_status response = None"
        "Print OperationCancelled \<notin> set (trace t)"
    proof -
      from ex that(3) have "Print OperationCancelled \<notin> set (trace s')" by auto
      with tb that(1,2) have "e = EOFError \<or> e = ValueError" by simp
      with generic have "matching_clause e = Some ExceptException" by auto
      with ex show ?thesis by auto
    qed
    with no_open show ?thesis by simp
  qed
  with raises generic(1) out t show ?thesis by simp
qed

lemma bad_length_run:
  "stdin bad_length_world = [''https://example.com/cat.png''] \<and>
   strip ''https://example.com/cat.png'' = ''https://example.com/cat.png'' \<and>
   requests_get bad_length_world ''https://example.com/cat.png'' = Inr bad_length_response \<and>
   makedirs bad_length_world = None \<and> raise_for_status bad_length_response = None \<and>
   header_get bad_length_response ''content-length'' = Some ''abc'' \<and>
   py_int ''abc'' = None \<and>
   Print OperationCancelled \<notin> set (trace (snd (main bad_length_world)))"
  by code_simp

theorem malformed_content_length_witness:
  "header_get bad_length_response ''content-length'' = Some ''abc'' \<and>
   py_int ''abc'' = None \<and>
   fst (main bad_length_world) = Returned \<and>
   (\<exists>before. trace (snd (main bad_length_world)) =
      before @ [Print (ErrorLine ExceptException), Print (WisdomLine ExceptException)]) \<and>
   no_file (trace (snd (main bad_length_world)))"
  using malformed_content_length [where w = bad_length_world
      and line = "''https://example.com/cat.png''" and rest = "[]"
      and response = bad_length_response and v = "''abc''"
      and s = "snd (main bad_length_world)"]
  by (simp add: bad_length_run)

lemma lower_char_idem: "lower_char (lower_char c) = lower_char c"
  by (auto simp: lower_char_def Let_def)

lemma lower_idem: "lower (lower s) = lower s"
  by (simp add: lower_def lower_char_idem)

lemma upper_case_png:
  "\<not> prefix ''image/'' ''Image/PNG'' \<and> get_extension_from_content_type ''Image/PNG'' = Some ''.png''"
  by code_simp

text \<open>
  Claim C10. The check of line 37 is case-sensitive: whenever the content type of the
  response does not start with the lower-case \<^verbatim>\<open>image/\<close>, the run prints the warning
  and asks \<^verbatim>\<open>Continue anyway?\<close> right after the request, although
  \<^verbatim>\<open>get_extension_from_content_type\<close> gives the same answer for a content type and its
  lower-case form. \<^verbatim>\<open>Image/PNG\<close> is such a value: it fails the check and resolves to
  \<^verbatim>\<open>.png\<close>.
\<close>

theorem content_type_check_case_sensitive:
  assumes "stdin w = line # rest" "strip line \<noteq> []" "makedirs w = None"
    and "requests_get w (strip line) = Inr response" "raise_for_status response = None"
    and "\<not> prefix ''image/'' (content_type_of response)"
  shows "(\<exists>ans. prefix
            [Print Welcome, Print Tagline, Input EnterUrl (Some line),
             MakeDirs ''Fetched_Images'', Print Connecting, Get (strip line),
             Print (ContentTypeWarning (content_type_of response)), Input ContinueAnyway ans]
            (trace (snd (main w)))) \<and>
         get_extension_from_content_type (lower (content_type_of response)) =
           get_extension_from_content_type (content_type_of response) \<and>
         \<not> prefix ''image/'' ''Image/PNG'' \<and>
         get_extension_from_content_type ''Image/PNG'' = Some ''.png''"
proof -
  let ?asked = "\<lambda>ans. [Print Welcome, Print Tagline, Input EnterUrl (Some line),
             MakeDirs ''Fetched_Images'', Print Connecting, Get (strip line),
             Print (ContentTypeWarning (content_type_of response)), Input ContinueAnyway ans]"
  obtain out t where m: "main w = (out, t)" and t: "snd (main w) = t"
    by (rule main_result)
  from m have "\<exists>ans. prefix (?asked ans) (trace t)"
  proof (cases rule: main_cases)
    case eof
    with assms(1) show ?thesis by simp
  next
    case (no_url line' rest')
    with assms(1,2) show ?thesis by simp
  next
    case (finished line' rest' s r)
    with assms(1) have "line' = line" by simp
    with try_body_not_image [OF finished(5)] assms(3-6) finished(4)
    show ?thesis by simp
  next
    case (raised line' rest' s e s')
    with assms(1) have "line' = line" by simp
    with try_body_not_image [OF raised(5)] assms(3-6) raised(4)
    obtain ans where "prefix (?asked ans) (trace s')" by auto
    with except_clauses_extends [OF raised(6)]
    have "prefix (?asked ans) (trace t)" by (rule prefix_order.trans [rotated])
    then show ?thesis ..
  qed
  with t upper_case_png show ?thesis
    by (simp add: get_extension_from_content_type_def lower_idem)
qed

lemma upper_case_run:
  "stdin upper_case_world = [''https://example.com/cat.png'', ''Y''] \<and>
   strip ''https://example.com/cat.png'' = ''https://example.com/cat.png'' \<and>
   requests_get upper_case_world ''https://example.com/cat.png'' = Inr upper_case_response \<and>
   makedirs upper_case_world = None \<and> raise_for_status upper_case_response = None \<and>
   content_type_of upper_case_response = ''Image/PNG'' \<and>
   \<not> prefix ''image/'' ''Image/PNG''"
  by code_simp

theorem content_type_check_case_sensitive_witness:
  "\<not> prefix ''image/'' (content_type_of upper_case_response) \<and>
   (\<exists>ans. prefix
      [Print Welcome, Print Tagline, Input EnterUrl (Some ''https://example.com/cat.png''),
       MakeDirs ''Fetched_Images'', Print Connecting, Get ''https://example.com/cat.png'',
       Print (ContentTypeWarning ''Image/PNG''), Input ContinueAnyway ans]
      (trace (snd (main upper_case_world)))) \<and>
   get_extension_from_content_type ''Image/PNG'' = Some ''.png''"
  using content_type_check_case_sensitive [where w = upper_case_world
      and line = "''https://example.com/cat.png''" and rest = "[''Y'']"
      and response = upper_case_response]
  by (simp add: upper_case_run)

end
